theory Spec2Isabelle
  imports Complex_Main
begin

section \<open>JavaScript values\<close>

text \<open>
  Both programs (\<^verbatim>\<open>server.js\<close> and \<^verbatim>\<open>AltTextApp.tsx\<close>) handle untyped JSON. A value is
  \<^verbatim>\<open>undefined\<close>, \<^verbatim>\<open>null\<close>, a boolean, a number, a string, an array or a plain object.
  An object is the list of its own properties in insertion order; the keys of an object are
  distinct (where a list repeats a key, the first entry is the property). Strings are
  sequences of UTF-8 bytes: every character the programs test for (quote, comma, line feed,
  white space) is either one ASCII byte or a fixed byte sequence, and an ASCII byte never
  occurs inside the encoding of another character. A number is the real value of the
  double; only its being zero is ever tested.
\<close>

datatype jsval =
    Undefined
  | Null
  | Bool bool
  | Num real
  | Str string
  | Arr "jsval list"
  | Obj "(string \<times> jsval) list"

text \<open>What a \<^verbatim>\<open>try\<close> block of the relay can catch.\<close>

datatype failure = TypeError | SyntaxError | Rejection

text \<open>\<^verbatim>\<open>Boolean(v)\<close>, and \<^verbatim>\<open>a || b\<close>.\<close>

fun truthy :: "jsval \<Rightarrow> bool" where
  "truthy Undefined = False"
| "truthy Null = False"
| "truthy (Bool b) = b"
| "truthy (Num r) = (r \<noteq> 0)"
| "truthy (Str s) = (s \<noteq> [])"
| "truthy (Arr vs) = True"
| "truthy (Obj kvs) = True"

definition or_else :: "jsval \<Rightarrow> jsval \<Rightarrow> jsval" where
  "or_else a b = (if truthy a then a else b)"

text \<open>\<^verbatim>\<open>Array.isArray(v)\<close>, and the elements a \<^verbatim>\<open>for ... of\<close> loop visits.\<close>

fun isArray :: "jsval \<Rightarrow> bool" where
  "isArray (Arr vs) = True"
| "isArray v = False"

fun elements :: "jsval \<Rightarrow> jsval list" where
  "elements (Arr vs) = vs"
| "elements v = []"

text \<open>
  \<^verbatim>\<open>v[k]\<close> and \<^verbatim>\<open>v.k\<close>: reading a property of \<^verbatim>\<open>undefined\<close> or \<^verbatim>\<open>null\<close> throws a
  TypeError; an object yields its own property or \<^verbatim>\<open>undefined\<close>. The members that
  arrays, strings and \<^verbatim>\<open>Object.prototype\<close> provide (\<^verbatim>\<open>length\<close>, indices,
  \<^verbatim>\<open>constructor\<close>, ...) are left out: none of them is called \<^verbatim>\<open>items\<close>,
  \<^verbatim>\<open>locales\<close>, \<^verbatim>\<open>results\<close>, \<^verbatim>\<open>rows\<close>, \<^verbatim>\<open>filename\<close>, \<^verbatim>\<open>english_alt\<close> or like a locale.
  \<^verbatim>\<open>v?.k\<close> yields \<^verbatim>\<open>undefined\<close> instead of throwing.
\<close>

fun get_prop :: "jsval \<Rightarrow> string \<Rightarrow> failure + jsval" where
  "get_prop Undefined k = Inl TypeError"
| "get_prop Null k = Inl TypeError"
| "get_prop (Obj kvs) k = Inr (case map_of kvs k of None \<Rightarrow> Undefined | Some v \<Rightarrow> v)"
| "get_prop v k = Inr Undefined"

definition optional_prop :: "jsval \<Rightarrow> string \<Rightarrow> jsval" where
  "optional_prop v k = (case get_prop v k of Inl err \<Rightarrow> Undefined | Inr x \<Rightarrow> x)"

text \<open>\<^verbatim>\<open>row[k] = v\<close> on an object: an existing property keeps its place, a new one is appended.\<close>

fun set_prop :: "(string \<times> jsval) list \<Rightarrow> string \<Rightarrow> jsval \<Rightarrow> (string \<times> jsval) list" where
  "set_prop [] k v = [(k, v)]"
| "set_prop ((k', v') # kvs) k v =
     (if k' = k then (k, v) # kvs else (k', v') # set_prop kvs k v)"

text \<open>\<^verbatim>\<open>Object.keys(v)\<close>.\<close>

fun own_keys :: "jsval \<Rightarrow> string list" where
  "own_keys (Obj kvs) = map fst kvs"
| "own_keys v = []"

text \<open>\<^verbatim>\<open>xs.join(sep)\<close> on an array of strings.\<close>

fun join :: "string \<Rightarrow> string list \<Rightarrow> string" where
  "join sep [] = []"
| "join sep [x] = x"
| "join sep (x # y # ys) = x @ sep @ join sep (y # ys)"

text \<open>
  The property key a value denotes when it is used as \<^verbatim>\<open>row[lc]\<close>: a string is its own key,
  anything else is converted by \<^verbatim>\<open>String\<close>. The conversion of a number is the runtime's
  (\<open>num\<close>).
\<close>

fun property_key :: "(real \<Rightarrow> string) \<Rightarrow> jsval \<Rightarrow> string" where
  "property_key num (Str s) = s"
| "property_key num Undefined = ''undefined''"
| "property_key num Null = ''null''"
| "property_key num (Bool b) = (if b then ''true'' else ''false'')"
| "property_key num (Num r) = num r"
| "property_key num (Arr vs) =
     join '','' (map (\<lambda>v. case v of Undefined \<Rightarrow> [] | Null \<Rightarrow> [] | _ \<Rightarrow> property_key num v) vs)"
| "property_key num (Obj kvs) = ''[object Object]''"

text \<open>
  What a client reads back from \<^verbatim>\<open>res.json(v)\<close>: serialisation drops the properties whose
  value is \<^verbatim>\<open>undefined\<close> and writes \<^verbatim>\<open>null\<close> for an \<^verbatim>\<open>undefined\<close> array element.
\<close>

fun to_json :: "jsval \<Rightarrow> jsval" where
  "to_json (Arr vs) = Arr (map (\<lambda>v. case v of Undefined \<Rightarrow> Null | _ \<Rightarrow> to_json v) vs)"
| "to_json (Obj kvs) =
     Obj (map (\<lambda>(k, v). (k, to_json v)) (filter (\<lambda>(k, v). v \<noteq> Undefined) kvs))"
| "to_json v = v"

text \<open>
  \<^verbatim>\<open>s.trim()\<close> removes white space and line terminators from both ends. The table holds
  the UTF-8 encodings of TAB, LF, VT, FF, CR, SPACE, U+00A0, U+1680, U+2000 to U+200A, U+2028,
  U+2029, U+202F, U+205F, U+3000 and U+FEFF.
\<close>

definition WhiteSpace :: "string list" where
  "WhiteSpace =
     [[CHR 0x09], [CHR 0x0A], [CHR 0x0B], [CHR 0x0C], [CHR 0x0D], [CHR 0x20],
      [CHR 0xC2, CHR 0xA0],
      [CHR 0xE1, CHR 0x9A, CHR 0x80],
      [CHR 0xE2, CHR 0x80, CHR 0x80], [CHR 0xE2, CHR 0x80, CHR 0x81],
      [CHR 0xE2, CHR 0x80, CHR 0x82], [CHR 0xE2, CHR 0x80, CHR 0x83],
      [CHR 0xE2, CHR 0x80, CHR 0x84], [CHR 0xE2, CHR 0x80, CHR 0x85],
      [CHR 0xE2, CHR 0x80, CHR 0x86], [CHR 0xE2, CHR 0x80, CHR 0x87],
      [CHR 0xE2, CHR 0x80, CHR 0x88], [CHR 0xE2, CHR 0x80, CHR 0x89],
      [CHR 0xE2, CHR 0x80, CHR 0x8A],
      [CHR 0xE2, CHR 0x80, CHR 0xA8], [CHR 0xE2, CHR 0x80, CHR 0xA9],
      [CHR 0xE2, CHR 0x80, CHR 0xAF],
      [CHR 0xE2, CHR 0x81, CHR 0x9F],
      [CHR 0xE3, CHR 0x80, CHR 0x80],
      [CHR 0xEF, CHR 0xBB, CHR 0xBF]]"

function trim_lead :: "string list \<Rightarrow> string \<Rightarrow> string" where
  "trim_lead ws s =
     (case find (\<lambda>w. w \<noteq> [] \<and> take (length w) s = w) ws of
        None \<Rightarrow> s
      | Some w \<Rightarrow> trim_lead ws (drop (length w) s))"
  by pat_completeness auto
termination
proof (relation "measure (\<lambda>(ws, s). length s)")
  show "wf (measure (\<lambda>(ws, s). length s))" by simp
next
  fix ws :: "string list" and s w :: string
  assume "find (\<lambda>w. w \<noteq> [] \<and> take (length w) s = w) ws = Some w"
  then have w: "w \<noteq> []" "take (length w) s = w"
    by (auto simp: find_Some_iff)
  from w(2) have "length (take (length w) s) = length w"
    by simp
  then have "length w \<le> length s"
    by simp
  with w show "((ws, drop (length w) s), (ws, s)) \<in> measure (\<lambda>(ws, s). length s)"
    by (cases w) auto
qed

declare trim_lead.simps [simp del]

definition trimStart :: "string \<Rightarrow> string" where
  "trimStart s = trim_lead WhiteSpace s"

definition trimEnd :: "string \<Rightarrow> string" where
  "trimEnd s = rev (trim_lead (map rev WhiteSpace) (rev s))"

definition trim :: "string \<Rightarrow> string" where
  "trim s = trimEnd (trimStart s)"

section \<open>The remote model and the runtime\<close>

text \<open>
  The relay calls \<^verbatim>\<open>openai.chat.completions.create\<close>. The promise rejects or resolves with
  a completion, typed by the client library: a list of choices, each with a message whose
  content is a string or \<^verbatim>\<open>null\<close>. A request is what varies between two calls: the image
  and its media type, or the user text of a translation. The remote is any function from the
  number of calls issued before and the request to a reply, so that two equal requests may be
  answered differently.
\<close>

record chat_message =
  content :: "string option"

record chat_choice =
  message :: chat_message

record chat_completion =
  choices :: "chat_choice list"

datatype request =
    DescribeRequest (image_data: string) (mime_type: string)
  | TranslateRequest (user_text: string)

datatype reply = Rejected | Resolved chat_completion

type_synonym remote = "nat \<Rightarrow> request \<Rightarrow> reply"

text \<open>
  Library functions the programs call and the repository does not define:
  \<^verbatim>\<open>JSON.parse\<close> (\<open>None\<close> when it throws a SyntaxError), \<^verbatim>\<open>JSON.stringify\<close>, the conversion
  of a number to a string, and \<^verbatim>\<open>Buffer.toString("base64")\<close>.
\<close>

record runtime =
  JSON_parse :: "string \<Rightarrow> jsval option"
  JSON_stringify :: "jsval \<Rightarrow> string"
  Number_toString :: "real \<Rightarrow> string"
  base64 :: "string \<Rightarrow> string"

text \<open>\<^verbatim>\<open>completion.choices?.[0]?.message?.content\<close>, and \<^verbatim>\<open>... || dflt\<close>.\<close>

definition first_content :: "chat_completion \<Rightarrow> string option" where
  "first_content completion =
     (case choices completion of [] \<Rightarrow> None | c # cs \<Rightarrow> content (message c))"

definition content_or :: "chat_completion \<Rightarrow> string \<Rightarrow> string" where
  "content_or completion dflt =
     (case first_content completion of
        None \<Rightarrow> dflt
      | Some s \<Rightarrow> if s = [] then dflt else s)"

section \<open>The relay: the describe endpoint\<close>

text \<open>
  \<^verbatim>\<open>app.post("/api/describe")\<close> of \<^verbatim>\<open>server.js\<close>. A file is what multer hands over. The
  handler answers with a response and, for the claims about remote calls, the model also
  returns the requests it issued, in order. \<open>describe_item\<close> is the body of the loop for one
  file, \<open>describe_loop\<close> the loop; an exception leaves the loop and is caught by the
  handler's \<^verbatim>\<open>catch\<close>.
\<close>

record upload =
  originalname :: string
  mimetype :: string
  buffer :: string

datatype body = Text string | Json jsval

datatype response = Response nat body

definition res_json :: "jsval \<Rightarrow> response" where
  "res_json v = Response 200 (Json (to_json v))"

definition describe_request :: "runtime \<Rightarrow> upload \<Rightarrow> request" where
  "describe_request rt f =
     (let b64 = base64 rt (buffer f);
          mimetype = (if mimetype f = [] then ''image/jpeg'' else mimetype f)
      in DescribeRequest b64 mimetype)"

definition describe_item :: "runtime \<Rightarrow> remote \<Rightarrow> nat \<Rightarrow> upload \<Rightarrow> failure + jsval" where
  "describe_item rt remote n f =
     (case remote n (describe_request rt f) of
        Rejected \<Rightarrow> Inl Rejection
      | Resolved completion \<Rightarrow>
          (let english_alt = trim (content_or completion ''Descriptive alt text.'')
           in Inr (Obj [(''filename'', Str (originalname f)), (''english_alt'', Str english_alt)])))"

fun describe_loop ::
  "runtime \<Rightarrow> remote \<Rightarrow> upload list \<Rightarrow> jsval list \<Rightarrow> request list
     \<Rightarrow> (failure + jsval list) \<times> request list" where
  "describe_loop rt remote [] results calls = (Inr results, calls)"
| "describe_loop rt remote (f # fs) results calls =
     (case describe_item rt remote (length calls) f of
        Inl err \<Rightarrow> (Inl err, calls @ [describe_request rt f])
      | Inr item \<Rightarrow>
          describe_loop rt remote fs (results @ [item]) (calls @ [describe_request rt f]))"

definition describe_endpoint ::
  "runtime \<Rightarrow> remote \<Rightarrow> upload list option \<Rightarrow> response \<times> request list" where
  "describe_endpoint rt remote req_files =
     (let files = (case req_files of None \<Rightarrow> [] | Some fs \<Rightarrow> fs) in
      if files = [] then (res_json (Obj [(''results'', Arr [])]), [])
      else
        (case describe_loop rt remote files [] [] of
           (Inr results, calls) \<Rightarrow> (res_json (Obj [(''results'', Arr results)]), calls)
         | (Inl err, calls) \<Rightarrow> (Response 500 (Text ''Describe error''), calls)))"

section \<open>The relay: the translate endpoint\<close>

text \<open>
  \<^verbatim>\<open>app.post("/api/translate")\<close> of \<^verbatim>\<open>server.js\<close>. \<open>new_row\<close> is the object literal the
  loop starts from, \<open>fill_locales\<close> the inner loop \<^verbatim>\<open>for (const lc of locales)\<close>,
  \<open>translate_item\<close> the body of the outer loop for one item (with the request it issued, if
  it got that far) and \<open>translate_loop\<close> the outer loop.
\<close>

definition LOCALES :: "string list" where
  "LOCALES = [''es-ES'', ''it-IT'', ''nl-NL'', ''nl-BE'', ''fr-FR'', ''de-DE'', ''de-AT'']"

definition new_row :: "jsval \<Rightarrow> jsval \<Rightarrow> (string \<times> jsval) list" where
  "new_row fname alt =
     [(''filename'', fname),
      (''english_alt'', alt),
      (''es-ES'', Str []),
      (''it-IT'', Str []),
      (''nl-NL'', Str []),
      (''nl-BE'', Str []),
      (''fr-FR'', Str []),
      (''de-DE'', Str []),
      (''de-AT'', Str [])]"

fun fill_locales ::
  "runtime \<Rightarrow> jsval \<Rightarrow> jsval list \<Rightarrow> (string \<times> jsval) list
     \<Rightarrow> failure + (string \<times> jsval) list" where
  "fill_locales rt parsed [] row = Inr row"
| "fill_locales rt parsed (lc # lcs) row =
     (let k = property_key (Number_toString rt) lc in
      case get_prop parsed k of
        Inl err \<Rightarrow> Inl err
      | Inr v \<Rightarrow> fill_locales rt parsed lcs (set_prop row k (or_else v (Str []))))"

definition translate_request :: "runtime \<Rightarrow> jsval list \<Rightarrow> jsval \<Rightarrow> request" where
  "translate_request rt locales alt =
     TranslateRequest (JSON_stringify rt (Obj [(''text'', alt), (''locales'', Arr locales)]))"

definition translate_item ::
  "runtime \<Rightarrow> remote \<Rightarrow> jsval list \<Rightarrow> nat \<Rightarrow> jsval \<Rightarrow> (failure + jsval) \<times> request list" where
  "translate_item rt remote locales n it =
     (case get_prop it ''filename'' of
        Inl err \<Rightarrow> (Inl err, [])
      | Inr fname \<Rightarrow>
     (case get_prop it ''english_alt'' of
        Inl err \<Rightarrow> (Inl err, [])
      | Inr alt \<Rightarrow>
     (let row = new_row fname alt;
          req = translate_request rt locales alt
      in case remote n req of
        Rejected \<Rightarrow> (Inl Rejection, [req])
      | Resolved completion \<Rightarrow>
     (case JSON_parse rt (content_or completion ''{}'') of
        None \<Rightarrow> (Inl SyntaxError, [req])
      | Some parsed \<Rightarrow>
     (case fill_locales rt parsed locales row of
        Inl err \<Rightarrow> (Inl err, [req])
      | Inr row' \<Rightarrow> (Inr (Obj row'), [req]))))))"

fun translate_loop ::
  "runtime \<Rightarrow> remote \<Rightarrow> jsval list \<Rightarrow> jsval list \<Rightarrow> jsval list \<Rightarrow> request list
     \<Rightarrow> (failure + jsval list) \<times> request list" where
  "translate_loop rt remote locales [] rows calls = (Inr rows, calls)"
| "translate_loop rt remote locales (it # its) rows calls =
     (case translate_item rt remote locales (length calls) it of
        (Inl err, sent) \<Rightarrow> (Inl err, calls @ sent)
      | (Inr row, sent) \<Rightarrow> translate_loop rt remote locales its (rows @ [row]) (calls @ sent))"

definition translate_endpoint ::
  "runtime \<Rightarrow> remote \<Rightarrow> jsval \<Rightarrow> response \<times> request list" where
  "translate_endpoint rt remote req_body =
     (let b = (if truthy req_body then req_body else Obj []) in
      case get_prop b ''items'' of
        Inl err \<Rightarrow> (Response 500 (Text ''Translate error''), [])
      | Inr items \<Rightarrow>
     (case get_prop b ''locales'' of
        Inl err \<Rightarrow> (Response 500 (Text ''Translate error''), [])
      | Inr locales \<Rightarrow>
          if \<not> isArray items \<or> \<not> isArray locales
          then (Response 400 (Text ''Bad request''), [])
          else
            (case translate_loop rt remote (elements locales) (elements items) [] [] of
               (Inr rows, calls) \<Rightarrow> (res_json (Obj [(''rows'', Arr rows)]), calls)
             | (Inl err, calls) \<Rightarrow> (Response 500 (Text ''Translate error''), calls))))"

section \<open>The client: validation and the describe/translate pipeline\<close>

text \<open>
  \<^verbatim>\<open>handleFiles\<close> of \<^verbatim>\<open>AltTextApp.tsx\<close>. \<open>validate\<close> is its \<^verbatim>\<open>forEach\<close> loop with the
  two arrays it pushes to. The network is a function from the call to what \<^verbatim>\<open>fetch\<close>
  yields: a rejection, or a response with its status and what \<^verbatim>\<open>res.text()\<close> and
  \<^verbatim>\<open>res.json()\<close> yield. The table holds the rows as the translate endpoint sent them
  (TypeScript types them \<^verbatim>\<open>Row[]\<close> without a check at run time).
\<close>

record File =
  name :: string
  type' :: string
  size' :: nat

definition SUPPORTED_MIME :: "string set" where
  "SUPPORTED_MIME = {''image/jpeg'', ''image/jpg'', ''image/png'', ''image/webp''}"

definition MAX_SIZE_BYTES :: nat where
  "MAX_SIZE_BYTES = 5 * 1024 * 1024"

definition unsupported_message :: "File \<Rightarrow> string" where
  "unsupported_message file =
     name file @ '' is not a supported image format (.jpg, .jpeg, .png, .webp).''"

definition oversize_message :: "File \<Rightarrow> string" where
  "oversize_message file =
     name file @ '' exceeds 5 MB. Please upload images up to 5 MB.''"

fun validate :: "File list \<Rightarrow> string list \<Rightarrow> File list \<Rightarrow> string list \<times> File list" where
  "validate [] newErrors validFiles = (newErrors, validFiles)"
| "validate (file # files) newErrors validFiles =
     (if type' file \<notin> SUPPORTED_MIME
      then validate files (newErrors @ [unsupported_message file]) validFiles
      else if size' file > MAX_SIZE_BYTES
      then validate files (newErrors @ [oversize_message file]) validFiles
      else validate files newErrors (validFiles @ [file]))"

datatype error = Error (error_name: string) (error_message: string)

record fetch_response =
  status :: nat
  text_body :: "string option"
  json_body :: "error + jsval"

datatype fetched = Failed error | Fetched fetch_response

datatype api_call =
    PostDescribe "File list"
  | PostTranslate "jsval list" "string list"

type_synonym fetch = "api_call \<Rightarrow> fetched"

definition ok :: "fetch_response \<Rightarrow> bool" where
  "ok res = (200 \<le> status res \<and> status res \<le> 299)"

text \<open>The decimal digits of a status code, for the template string.\<close>

fun show_nat :: "nat \<Rightarrow> string" where
  "show_nat n =
     (if n < 10 then [char_of (48 + n)]
      else show_nat (n div 10) @ [char_of (48 + n mod 10)])"

declare show_nat.simps [simp del]

definition batchDescribe :: "fetch \<Rightarrow> File list \<Rightarrow> error + jsval list" where
  "batchDescribe fetch files =
     (case fetch (PostDescribe files) of
        Failed err \<Rightarrow> Inl err
      | Fetched res \<Rightarrow>
          if \<not> ok res then
            (let txt = (case text_body res of None \<Rightarrow> [] | Some t \<Rightarrow> t) in
             Inl (Error ''Error''
                    (''Describe API failed ('' @ show_nat (status res) @ ''). '' @ txt)))
          else
            (case json_body res of
               Inl err \<Rightarrow> Inl err
             | Inr data \<Rightarrow>
                 if \<not> truthy (optional_prop data ''results'')
                    \<or> \<not> isArray (optional_prop data ''results'')
                 then Inl (Error ''Error'' ''Bad describe API response'')
                 else Inr (elements (optional_prop data ''results''))))"

definition batchTranslate :: "fetch \<Rightarrow> jsval list \<Rightarrow> string list \<Rightarrow> error + jsval list" where
  "batchTranslate fetch items locales =
     (case fetch (PostTranslate items locales) of
        Failed err \<Rightarrow> Inl err
      | Fetched res \<Rightarrow>
          if \<not> ok res then
            (let txt = (case text_body res of None \<Rightarrow> [] | Some t \<Rightarrow> t) in
             Inl (Error ''Error''
                    (''Translate API failed ('' @ show_nat (status res) @ ''). '' @ txt)))
          else
            (case json_body res of
               Inl err \<Rightarrow> Inl err
             | Inr data \<Rightarrow>
                 if \<not> truthy (optional_prop data ''rows'')
                    \<or> \<not> isArray (optional_prop data ''rows'')
                 then Inl (Error ''Error'' ''Bad translate API response'')
                 else Inr (elements (optional_prop data ''rows''))))"

record app_state =
  rows :: "jsval list"
  errors :: "string list"
  isProcessing :: bool

text \<open>\<^verbatim>\<open>e?.message || String(e)\<close> for a caught error.\<close>

definition surfaced :: "error \<Rightarrow> string" where
  "surfaced e = (if error_message e \<noteq> [] then error_message e else error_name e)"

definition handleFiles :: "fetch \<Rightarrow> app_state \<Rightarrow> File list \<Rightarrow> app_state" where
  "handleFiles fetch st files =
     (case validate files [] [] of (newErrors, validFiles) \<Rightarrow>
        (let st1 = st\<lparr>errors := errors st @ newErrors\<rparr> in
         if validFiles = [] then st1
         else
           (case batchDescribe fetch validFiles of
              Inl e \<Rightarrow> st1\<lparr>errors := errors st1 @ [surfaced e], isProcessing := False\<rparr>
            | Inr described \<Rightarrow>
                (case batchTranslate fetch described LOCALES of
                   Inl e \<Rightarrow> st1\<lparr>errors := errors st1 @ [surfaced e], isProcessing := False\<rparr>
                 | Inr completedRows \<Rightarrow>
                     st1\<lparr>rows := rows st1 @ completedRows, isProcessing := False\<rparr>))))"

section \<open>The client: CSV export\<close>

text \<open>
  \<^verbatim>\<open>toCSV\<close> of \<^verbatim>\<open>useCSV\<close>, on rows as the interface \<^verbatim>\<open>Row\<close> types them: nine strings.
  \<open>row_prop\<close> is \<^verbatim>\<open>(r as any)[h]\<close>.
\<close>

record Row =
  filename :: string
  english_alt :: string
  es_ES :: string
  it_IT :: string
  nl_NL :: string
  nl_BE :: string
  fr_FR :: string
  de_DE :: string
  de_AT :: string

abbreviation DQUOTE :: char where "DQUOTE \<equiv> CHR 0x22"
abbreviation COMMA :: char where "COMMA \<equiv> CHR 0x2C"
abbreviation LF :: char where "LF \<equiv> CHR 0x0A"
abbreviation CR :: char where "CR \<equiv> CHR 0x0D"

definition headers :: "string list" where
  "headers = [''filename'', ''english_alt'', ''es-ES'', ''it-IT'', ''nl-NL'', ''nl-BE'',
              ''fr-FR'', ''de-DE'', ''de-AT'']"

definition row_prop :: "Row \<Rightarrow> string \<Rightarrow> string option" where
  "row_prop r h =
     (if h = ''filename'' then Some (filename r)
      else if h = ''english_alt'' then Some (english_alt r)
      else if h = ''es-ES'' then Some (es_ES r)
      else if h = ''it-IT'' then Some (it_IT r)
      else if h = ''nl-NL'' then Some (nl_NL r)
      else if h = ''nl-BE'' then Some (nl_BE r)
      else if h = ''fr-FR'' then Some (fr_FR r)
      else if h = ''de-DE'' then Some (de_DE r)
      else if h = ''de-AT'' then Some (de_AT r)
      else None)"

text \<open>The test \<^verbatim>\<open>/[",\n]/.test(v)\<close> and the function \<^verbatim>\<open>escape\<close>.\<close>

definition needs_quotes :: "string \<Rightarrow> bool" where
  "needs_quotes v = list_ex (\<lambda>c. c = DQUOTE \<or> c = COMMA \<or> c = LF) v"

definition escape :: "string \<Rightarrow> string" where
  "escape v =
     (if needs_quotes v
      then [DQUOTE] @ concat (map (\<lambda>c. if c = DQUOTE then [DQUOTE, DQUOTE] else [c]) v) @ [DQUOTE]
      else v)"

definition toCSV :: "Row list \<Rightarrow> string" where
  "toCSV rs =
     (let lines = [join [COMMA] headers]
            @ map (\<lambda>r. join [COMMA]
                         (map (\<lambda>h. escape (case row_prop r h of None \<Rightarrow> [] | Some v \<Rightarrow> v)) headers))
                  rs
      in join [LF] lines)"

section \<open>A standard CSV reader\<close>

text \<open>
  Modelled from the spec: the "standard CSV parser" of the round-trip property, which the
  repository does not contain. It reads RFC 4180 documents: fields separated by commas, a
  field either plain or enclosed in double quotes with inner quotes doubled, records ended
  by LF or CRLF (the spec's "CRLF or LF line endings"), the last record with or without a
  line ending. It is strict: a quote inside a plain field, text after a closing quote, a
  carriage return that no line feed follows and an unclosed quote are errors (\<open>None\<close>).
  The result is the list of records, each the list of its fields; the header is the first.
\<close>

datatype csv_state = FieldStart | Unquoted | Quoted | QuoteSeen | CRSeen

fun csv_scan ::
  "csv_state \<Rightarrow> string \<Rightarrow> string list \<Rightarrow> string list list \<Rightarrow> string
     \<Rightarrow> string list list option" where
  "csv_scan st fld rcd out [] =
     (case st of
        Quoted \<Rightarrow> None
      | CRSeen \<Rightarrow> None
      | FieldStart \<Rightarrow> if rcd = [] then Some out else Some (out @ [rcd @ [fld]])
      | Unquoted \<Rightarrow> Some (out @ [rcd @ [fld]])
      | QuoteSeen \<Rightarrow> Some (out @ [rcd @ [fld]]))"
| "csv_scan st fld rcd out (c # cs) =
     (case st of
        Quoted \<Rightarrow>
          if c = DQUOTE then csv_scan QuoteSeen fld rcd out cs
          else csv_scan Quoted (fld @ [c]) rcd out cs
      | QuoteSeen \<Rightarrow>
          if c = DQUOTE then csv_scan Quoted (fld @ [DQUOTE]) rcd out cs
          else if c = COMMA then csv_scan FieldStart [] (rcd @ [fld]) out cs
          else if c = LF then csv_scan FieldStart [] [] (out @ [rcd @ [fld]]) cs
          else if c = CR then csv_scan CRSeen fld rcd out cs
          else None
      | CRSeen \<Rightarrow>
          if c = LF then csv_scan FieldStart [] [] (out @ [rcd @ [fld]]) cs
          else None
      | FieldStart \<Rightarrow>
          if c = DQUOTE then csv_scan Quoted [] rcd out cs
          else if c = COMMA then csv_scan FieldStart [] (rcd @ [fld]) out cs
          else if c = LF then csv_scan FieldStart [] [] (out @ [rcd @ [fld]]) cs
          else if c = CR then csv_scan CRSeen fld rcd out cs
          else csv_scan Unquoted (fld @ [c]) rcd out cs
      | Unquoted \<Rightarrow>
          if c = DQUOTE then None
          else if c = COMMA then csv_scan FieldStart [] (rcd @ [fld]) out cs
          else if c = LF then csv_scan FieldStart [] [] (out @ [rcd @ [fld]]) cs
          else if c = CR then csv_scan CRSeen fld rcd out cs
          else csv_scan Unquoted (fld @ [c]) rcd out cs)"

definition csv_parse :: "string \<Rightarrow> string list list option" where
  "csv_parse doc = csv_scan FieldStart [] [] [] doc"

text \<open>The nine values of a row, in the order of the header.\<close>

definition row_values :: "Row \<Rightarrow> string list" where
  "row_values r =
     [filename r, english_alt r, es_ES r, it_IT r, nl_NL r, nl_BE r, fr_FR r, de_DE r, de_AT r]"

section \<open>Example inputs\<close>

text \<open>
  Concrete inputs for the statements that are evaluated on an example. Files offered to
  the validator: a 6 MiB GIF, a 2 MiB JPEG and a 6 MiB PNG.
\<close>

definition big_gif :: File where
  "big_gif = \<lparr>name = ''a.gif'', type' = ''image/gif'', size' = 6291456\<rparr>"

definition small_jpeg :: File where
  "small_jpeg = \<lparr>name = ''b.jpg'', type' = ''image/jpeg'', size' = 2097152\<rparr>"

definition big_png :: File where
  "big_png = \<lparr>name = ''c.png'', type' = ''image/png'', size' = 6291456\<rparr>"

text \<open>Two uploads as multer hands them over, and an item of a translate request.\<close>

definition cat_upload :: upload where
  "cat_upload = \<lparr>originalname = ''cat.jpg'', mimetype = ''image/jpeg'', buffer = ''xyz''\<rparr>"

definition dog_upload :: upload where
  "dog_upload = \<lparr>originalname = ''dog.png'', mimetype = [], buffer = ''uvw''\<rparr>"

definition cat_item :: jsval where
  "cat_item = Obj [(''filename'', Str ''cat.jpg''), (''english_alt'', Str ''A cat.'')]"

text \<open>
  Remote behaviours: every call rejected; every call resolved with a \<^verbatim>\<open>null\<close> content, with
  a padded description, with the JSON text of an empty object, or with the JSON text of an
  object that holds the Spanish translation only; and the second call of a batch rejected.
\<close>

definition completion_with :: "string option \<Rightarrow> chat_completion" where
  "completion_with c = \<lparr>choices = [\<lparr>message = \<lparr>content = c\<rparr>\<rparr>]\<rparr>"

definition partial_reply :: string where
  "partial_reply =
     ''{'' @ [DQUOTE] @ ''es-ES'' @ [DQUOTE] @ '':'' @ [DQUOTE] @ ''Un gato.'' @ [DQUOTE] @ ''}''"

definition remote_down :: remote where
  "remote_down n req = Rejected"

definition remote_silent :: remote where
  "remote_silent n req = Resolved (completion_with None)"

definition remote_padded :: remote where
  "remote_padded n req = Resolved (completion_with (Some ''  A cat on a mat. ''))"

definition remote_empty_object :: remote where
  "remote_empty_object n req = Resolved (completion_with (Some ''{}''))"

definition remote_partial :: remote where
  "remote_partial n req = Resolved (completion_with (Some partial_reply))"

definition remote_flaky :: remote where
  "remote_flaky n req = (if n = 1 then Rejected else Resolved (completion_with None))"

text \<open>
  A runtime for the examples: \<open>JSON_parse\<close> is \<^verbatim>\<open>JSON.parse\<close> on the two reply texts above.
  The other three functions only shape the requests, which the remote behaviours above
  ignore and no example statement mentions; they return the empty string.
\<close>

definition stub_runtime :: runtime where
  "stub_runtime =
     \<lparr>JSON_parse = (\<lambda>s. if s = ''{}'' then Some (Obj [])
                         else if s = partial_reply then Some (Obj [(''es-ES'', Str ''Un gato.'')])
                         else None),
      JSON_stringify = (\<lambda>v. []),
      Number_toString = (\<lambda>r. []),
      base64 = (\<lambda>s. [])\<rparr>"

text \<open>
  The client seeing the relay's answer to a failed describe batch (its text is no JSON, so
  \<^verbatim>\<open>res.json()\<close> would reject), and the state of a fresh session.
\<close>

definition describe_error_response :: fetch_response where
  "describe_error_response =
     \<lparr>status = 500, text_body = Some ''Describe error'',
      json_body = Inl (Error ''SyntaxError'' ''Unexpected token D'')\<rparr>"

definition relay_fails :: fetch where
  "relay_fails call = Fetched describe_error_response"

definition empty_state :: app_state where
  "empty_state = \<lparr>rows = [], errors = [], isProcessing = False\<rparr>"

text \<open>
  Two rows of the table. The Austrian translation of the first ends with a carriage return;
  the second has a comma in its filename, and quotes and a CRLF in its description.
\<close>

definition cat_row :: Row where
  "cat_row =
     \<lparr>filename = ''cat.jpg'', english_alt = ''A cat.'', es_ES = ''Un gato.'',
      it_IT = ''Un gatto.'', nl_NL = ''Een kat.'', nl_BE = ''Een kat.'', fr_FR = ''Un chat.'',
      de_DE = ''Eine Katze.'', de_AT = ''Eine Katze.'' @ [CR]\<rparr>"

definition dog_row :: Row where
  "dog_row =
     \<lparr>filename = ''dog, small.png'',
      english_alt = ''A dog says '' @ [DQUOTE] @ ''woof'' @ [DQUOTE] @ ''.'' @ [CR, LF] @ ''Twice.'',
      es_ES = ''Un perro.'', it_IT = ''Un cane.'', nl_NL = ''Een hond.'', nl_BE = [],
      fr_FR = ''Un chien.'', de_DE = ''Ein Hund.'', de_AT = ''Ein Hund.''\<rparr>"

section \<open>The validator\<close>

text \<open>
  The loop of the validator with its two accumulators: the files kept are the files that
  pass both tests, the messages are those of the files that fail one, both in the order of
  the batch.
\<close>

lemma validate_acc:
  "validate files errs valid =
     (errs @ fst (validate files [] []), valid @ snd (validate files [] []))"
proof (induction files arbitrary: errs valid)
  case Nil
  show ?case by simp
next
  case (Cons fl files)
  show ?case
    using Cons.IH [of "errs @ [unsupported_message fl]" valid]
      Cons.IH [of "[unsupported_message fl]" "[]"]
      Cons.IH [of "errs @ [oversize_message fl]" valid]
      Cons.IH [of "[oversize_message fl]" "[]"]
      Cons.IH [of errs "valid @ [fl]"]
      Cons.IH [of "[]" "[fl]"]
    by simp
qed

lemma validate_valid:
  "snd (validate files [] []) =
     filter (\<lambda>f. type' f \<in> SUPPORTED_MIME \<and> size' f \<le> MAX_SIZE_BYTES) files"
proof (induction files)
  case Nil
  show ?case by simp
next
  case (Cons fl files)
  show ?case
    using Cons.IH
      validate_acc [of files "[unsupported_message fl]" "[]"]
      validate_acc [of files "[oversize_message fl]" "[]"]
      validate_acc [of files "[]" "[fl]"]
    by (simp add: not_le)
qed

lemma validate_errors:
  "fst (validate files [] []) =
     map (\<lambda>f. if type' f \<notin> SUPPORTED_MIME then unsupported_message f else oversize_message f)
       (filter (\<lambda>f. \<not> (type' f \<in> SUPPORTED_MIME \<and> size' f \<le> MAX_SIZE_BYTES)) files)"
proof (induction files)
  case Nil
  show ?case by simp
next
  case (Cons fl files)
  show ?case
    using Cons.IH
      validate_acc [of files "[unsupported_message fl]" "[]"]
      validate_acc [of files "[oversize_message fl]" "[]"]
      validate_acc [of files "[]" "[fl]"]
    by (auto simp add: not_le)
qed

text \<open>
  C7: for every batch of candidate files, the files kept are exactly the files of the batch
  whose media type is on the allow-list and whose size is at most 5 MiB, in their order (so a
  valid file is kept whatever its siblings are), and every file whose media type is outside
  the allow-list is left out and has its message among the new errors.
\<close>
theorem validator_rejects_unsupported_types:
  assumes "validate files [] [] = (newErrors, validFiles)"
  shows "validFiles = filter (\<lambda>f. type' f \<in> SUPPORTED_MIME \<and> size' f \<le> MAX_SIZE_BYTES) files
     \<and> (\<forall>f \<in> set files. type' f \<notin> SUPPORTED_MIME \<longrightarrow>
           f \<notin> set validFiles \<and> unsupported_message f \<in> set newErrors)"
proof -
  have v: "validFiles = filter (\<lambda>f. type' f \<in> SUPPORTED_MIME \<and> size' f \<le> MAX_SIZE_BYTES) files"
    using assms validate_valid [of files] by simp
  have e: "newErrors = map (\<lambda>f. if type' f \<notin> SUPPORTED_MIME then unsupported_message f else oversize_message f)
       (filter (\<lambda>f. \<not> (type' f \<in> SUPPORTED_MIME \<and> size' f \<le> MAX_SIZE_BYTES)) files)"
    using assms validate_errors [of files] by simp
  show ?thesis
  proof (intro conjI ballI impI)
    show "validFiles = filter (\<lambda>f. type' f \<in> SUPPORTED_MIME \<and> size' f \<le> MAX_SIZE_BYTES) files"
      by (rule v)
  next
    fix f assume "f \<in> set files" "type' f \<notin> SUPPORTED_MIME"
    then show "f \<notin> set validFiles" by (simp add: v)
  next
    fix f assume f: "f \<in> set files" "type' f \<notin> SUPPORTED_MIME"
    then show "unsupported_message f \<in> set newErrors"
      unfolding e by force
  qed
qed

theorem validator_rejects_unsupported_types_witness:
  "validate [big_gif, small_jpeg] [] [] = ([unsupported_message big_gif], [small_jpeg])
   \<and> small_jpeg \<in> set [big_gif, small_jpeg] \<and> type' big_gif \<notin> SUPPORTED_MIME
   \<and> big_gif \<notin> set [small_jpeg] \<and> unsupported_message big_gif \<in> set [unsupported_message big_gif]"
proof -
  have run: "validate [big_gif, small_jpeg] [] [] = ([unsupported_message big_gif], [small_jpeg])"
    by (simp add: big_gif_def small_jpeg_def SUPPORTED_MIME_def MAX_SIZE_BYTES_def)
  have ty: "type' big_gif \<notin> SUPPORTED_MIME"
    by (simp add: big_gif_def SUPPORTED_MIME_def)
  have small: "small_jpeg \<in> set [big_gif, small_jpeg]"
    by simp
  from validator_rejects_unsupported_types [OF run, THEN conjunct2, THEN bspec, of big_gif] ty
  have "big_gif \<notin> set [small_jpeg]
      \<and> unsupported_message big_gif \<in> set [unsupported_message big_gif]"
    by simp
  with run ty small show ?thesis
    by (intro conjI) (rule run, rule small, rule ty, simp_all)
qed

text \<open>
  C8 as stated fails: a file larger than 5 MiB whose media type is not supported gets the
  message about the format, and no message about its size.
\<close>
theorem oversized_unsupported_file_gets_no_size_message:
  "size' big_gif > MAX_SIZE_BYTES
   \<and> validate [big_gif] [] [] = ([unsupported_message big_gif], [])
   \<and> oversize_message big_gif \<notin> set (fst (validate [big_gif] [] []))"
  by (simp add: big_gif_def SUPPORTED_MIME_def MAX_SIZE_BYTES_def unsupported_message_def
      oversize_message_def)

text \<open>
  C8, amended: every file larger than 5 MiB is rejected; the message produced for it is the
  size-specific one when its media type is supported, and the unsupported-format one
  otherwise.
\<close>

theorem validator_rejects_oversized_files:
  assumes "validate files [] [] = (newErrors, validFiles)"
    and "f \<in> set files" and "size' f > MAX_SIZE_BYTES"
  shows "f \<notin> set validFiles
     \<and> (if type' f \<in> SUPPORTED_MIME then oversize_message f \<in> set newErrors
        else unsupported_message f \<in> set newErrors)"
proof -
  have v: "validFiles = filter (\<lambda>f. type' f \<in> SUPPORTED_MIME \<and> size' f \<le> MAX_SIZE_BYTES) files"
    using assms(1) validate_valid [of files] by simp
  have e: "newErrors = map (\<lambda>f. if type' f \<notin> SUPPORTED_MIME then unsupported_message f else oversize_message f)
       (filter (\<lambda>f. \<not> (type' f \<in> SUPPORTED_MIME \<and> size' f \<le> MAX_SIZE_BYTES)) files)"
    using assms(1) validate_errors [of files] by simp
  have "(if type' f \<notin> SUPPORTED_MIME then unsupported_message f else oversize_message f)
      \<in> set newErrors"
    unfolding e using assms(2,3) by force
  then show ?thesis
    using assms(3) by (auto simp: v split: if_splits)
qed

theorem validator_rejects_oversized_files_witness:
  "big_png \<notin> set [small_jpeg] \<and> oversize_message big_png \<in> set [oversize_message big_png]
   \<and> validate [small_jpeg, big_png] [] [] = ([oversize_message big_png], [small_jpeg])"
proof -
  have run: "validate [small_jpeg, big_png] [] [] = ([oversize_message big_png], [small_jpeg])"
    by (simp add: big_png_def small_jpeg_def SUPPORTED_MIME_def MAX_SIZE_BYTES_def)
  have big: "size' big_png > MAX_SIZE_BYTES"
    by (simp add: big_png_def MAX_SIZE_BYTES_def)
  have ty: "type' big_png \<in> SUPPORTED_MIME"
    by (simp add: big_png_def SUPPORTED_MIME_def)
  from validator_rejects_oversized_files [OF run _ big] ty
  have "big_png \<notin> set [small_jpeg]
      \<and> oversize_message big_png \<in> set [oversize_message big_png]"
    by simp
  with run show ?thesis
    by (intro conjI) (simp_all)
qed

section \<open>The describe endpoint\<close>

lemma trim_default: "trim ''Descriptive alt text.'' = ''Descriptive alt text.''"
  by code_simp

text \<open>
  The body of the loop for one file succeeds exactly when the remote call resolves, and the
  result is then the object with the original name and the trimmed description.
\<close>

lemma describe_item_Inr:
  "describe_item rt remote n f = Inr item \<longleftrightarrow>
     (\<exists>completion. remote n (describe_request rt f) = Resolved completion
        \<and> item = Obj [(''filename'', Str (originalname f)),
                      (''english_alt'', Str (trim (content_or completion ''Descriptive alt text.'')))])"
  by (auto simp: describe_item_def split: reply.splits)

lemma describe_item_Inl:
  "describe_item rt remote n f = Inl err \<longleftrightarrow>
     remote n (describe_request rt f) = Rejected \<and> err = Rejection"
  by (auto simp: describe_item_def split: reply.splits)

text \<open>
  The loop: when it returns, it issued one request per file and appended one result per
  file, in order; it returns when no call is rejected and fails when one is.
\<close>

lemma describe_loop_Inr:
  "describe_loop rt remote fs results calls = (Inr rs, calls') \<Longrightarrow>
     calls' = calls @ map (describe_request rt) fs
     \<and> length rs = length results + length fs
     \<and> take (length results) rs = results
     \<and> (\<forall>i<length fs. describe_item rt remote (length calls + i) (fs ! i)
            = Inr (rs ! (length results + i)))"
proof (induction fs arbitrary: results calls)
  case Nil
  then show ?case by simp
next
  case (Cons f fs)
  from Cons.prems obtain item where
    item: "describe_item rt remote (length calls) f = Inr item"
    and loop: "describe_loop rt remote fs (results @ [item]) (calls @ [describe_request rt f])
                = (Inr rs, calls')"
    by (auto split: sum.splits)
  from Cons.IH [OF loop] have
    c: "calls' = (calls @ [describe_request rt f]) @ map (describe_request rt) fs"
    and l: "length rs = length (results @ [item]) + length fs"
    and t: "take (length (results @ [item])) rs = results @ [item]"
    and r: "\<forall>i<length fs. describe_item rt remote (length (calls @ [describe_request rt f]) + i) (fs ! i)
              = Inr (rs ! (length (results @ [item]) + i))"
    by blast+
  have "take (length results) rs = take (length results) (take (length (results @ [item])) rs)"
    by (simp add: min_def)
  also have "\<dots> = results"
    unfolding t by simp
  finally have t0: "take (length results) rs = results" .
  have "rs ! length results = take (length (results @ [item])) rs ! length results"
    by simp
  also have "\<dots> = item"
    unfolding t by simp
  finally have hd: "rs ! length results = item" .
  have "\<forall>i<length (f # fs). describe_item rt remote (length calls + i) ((f # fs) ! i)
          = Inr (rs ! (length results + i))"
  proof (intro allI impI)
    fix i assume "i < length (f # fs)"
    show "describe_item rt remote (length calls + i) ((f # fs) ! i) = Inr (rs ! (length results + i))"
    proof (cases i)
      case 0
      then show ?thesis using item hd by simp
    next
      case (Suc j)
      with \<open>i < length (f # fs)\<close> have "j < length fs" by simp
      with r Suc show ?thesis by simp
    qed
  qed
  with c l t0 show ?case by simp
qed

lemma describe_loop_resolved:
  "\<forall>i<length fs. remote (length calls + i) (describe_request rt (fs ! i)) \<noteq> Rejected \<Longrightarrow>
     \<exists>rs. describe_loop rt remote fs results calls = (Inr rs, calls @ map (describe_request rt) fs)"
proof (induction fs arbitrary: results calls)
  case Nil
  show ?case by simp
next
  case (Cons f fs)
  from Cons.prems have "remote (length calls) (describe_request rt f) \<noteq> Rejected"
    by fastforce
  then obtain item where item: "describe_item rt remote (length calls) f = Inr item"
    by (cases "remote (length calls) (describe_request rt f)") (auto simp: describe_item_def Let_def)
  have "\<forall>i<length fs. remote (length (calls @ [describe_request rt f]) + i)
           (describe_request rt (fs ! i)) \<noteq> Rejected"
    using Cons.prems by fastforce
  from Cons.IH [OF this, of "results @ [item]"] item show ?case
    by simp
qed

lemma describe_loop_rejected:
  "i < length fs \<Longrightarrow> remote (length calls + i) (describe_request rt (fs ! i)) = Rejected \<Longrightarrow>
     \<exists>calls'. describe_loop rt remote fs results calls = (Inl Rejection, calls')"
proof (induction fs arbitrary: results calls i)
  case Nil
  then show ?case by simp
next
  case (Cons f fs)
  show ?case
  proof (cases "describe_item rt remote (length calls) f")
    case (Inl err)
    then have "err = Rejection" by (simp add: describe_item_Inl)
    with Inl show ?thesis by simp
  next
    case (Inr item)
    have "i \<noteq> 0"
    proof
      assume "i = 0"
      with Cons.prems(2) have "remote (length calls) (describe_request rt f) = Rejected"
        by simp
      with Inr show False
        by (simp add: describe_item_Inr)
    qed
    then obtain j where j: "i = Suc j" by (cases i) auto
    with Cons.prems have "j < length fs"
      and "remote (length (calls @ [describe_request rt f]) + j) (describe_request rt (fs ! j)) = Rejected"
      by simp_all
    from Cons.IH [OF this, of "results @ [item]"] Inr show ?thesis
      by simp
  qed
qed

text \<open>
  The handler. A result holds two strings, so serialisation leaves the list of results as
  it is; the answer is the list with status 200, or status 500 when the loop failed.
\<close>

lemma to_json_described:
  "\<forall>i<length rs. \<exists>a b. rs ! i = Obj [(''filename'', Str a), (''english_alt'', Str b)] \<Longrightarrow>
     to_json (Obj [(''results'', Arr rs)]) = Obj [(''results'', Arr rs)]"
proof -
  assume a: "\<forall>i<length rs. \<exists>a b. rs ! i = Obj [(''filename'', Str a), (''english_alt'', Str b)]"
  have "map (\<lambda>v. case v of Undefined \<Rightarrow> Null | _ \<Rightarrow> to_json v) rs = rs"
  proof (rule map_idI)
    fix v assume "v \<in> set rs"
    then obtain i where "i < length rs" "rs ! i = v"
      by (auto simp: in_set_conv_nth)
    with a obtain x y where "v = Obj [(''filename'', Str x), (''english_alt'', Str y)]"
      by blast
    then show "(case v of Undefined \<Rightarrow> Null | _ \<Rightarrow> to_json v) = v"
      by simp
  qed
  then show ?thesis by simp
qed

lemma describe_endpoint_ok:
  assumes "describe_loop rt remote files [] [] = (Inr rs, calls)"
  shows "describe_endpoint rt remote (Some files) = (Response 200 (Json (Obj [(''results'', Arr rs)])), calls)"
proof -
  from describe_loop_Inr [OF assms] have
    len: "length rs = length files"
    and items: "\<forall>i<length files. describe_item rt remote i (files ! i) = Inr (rs ! i)"
    by simp_all
  have "\<forall>i<length rs. \<exists>a b. rs ! i = Obj [(''filename'', Str a), (''english_alt'', Str b)]"
    using items len by (metis describe_item_Inr)
  from to_json_described [OF this] have tj: "to_json (Obj [(''results'', Arr rs)]) = Obj [(''results'', Arr rs)]" .
  show ?thesis
  proof (cases "files = []")
    case True
    with assms show ?thesis
      by (simp add: describe_endpoint_def res_json_def)
  next
    case False
    with assms tj show ?thesis
      by (simp add: describe_endpoint_def res_json_def del: to_json.simps)
  qed
qed

lemma describe_endpoint_cases:
  "(\<exists>rs calls. describe_loop rt remote files [] [] = (Inr rs, calls)
      \<and> describe_endpoint rt remote (Some files) = (Response 200 (Json (Obj [(''results'', Arr rs)])), calls))
   \<or> (\<exists>err calls. describe_loop rt remote files [] [] = (Inl err, calls)
      \<and> describe_endpoint rt remote (Some files) = (Response 500 (Text ''Describe error''), calls))"
proof (cases "describe_loop rt remote files [] []")
  case (Pair r calls)
  show ?thesis
  proof (cases r)
    case (Inl err)
    with Pair have "files \<noteq> []" by auto
    with Pair Inl show ?thesis by (simp add: describe_endpoint_def)
  next
    case (Inr rs)
    with Pair describe_endpoint_ok [of rt remote files rs calls] show ?thesis by simp
  qed
qed

text \<open>
  C6: when no file is submitted (an empty list, or no list at all), the describe endpoint
  answers with status 200 and an empty list of results, and issues no remote call.
\<close>

theorem describe_no_files_is_empty_list:
  "describe_endpoint rt remote (Some []) = (Response 200 (Json (Obj [(''results'', Arr [])])), [])
   \<and> describe_endpoint rt remote None = (Response 200 (Json (Obj [(''results'', Arr [])])), [])"
  by (simp add: describe_endpoint_def res_json_def)

text \<open>
  C3: when every remote call of a describe batch succeeds, the endpoint answers with status
  200 and exactly one result per submitted file, in the order of the files; the filename of
  the i-th result is the original name of the i-th file. It issued one request per file, in
  the same order.
\<close>

theorem describe_one_item_per_file_in_order:
  assumes "\<forall>i<length files. remote i (describe_request rt (files ! i)) \<noteq> Rejected"
  shows "\<exists>results.
     describe_endpoint rt remote (Some files)
       = (Response 200 (Json (Obj [(''results'', Arr results)])), map (describe_request rt) files)
     \<and> length results = length files
     \<and> (\<forall>i<length files.
           get_prop (results ! i) ''filename'' = Inr (Str (originalname (files ! i))))"
proof -
  from assms have "\<forall>i<length files. remote (length ([]::request list) + i)
      (describe_request rt (files ! i)) \<noteq> Rejected"
    by simp
  from describe_loop_resolved [OF this, of "[]"] obtain rs where
    loop: "describe_loop rt remote files [] [] = (Inr rs, map (describe_request rt) files)"
    by auto
  from describe_loop_Inr [OF loop] have
    len: "length rs = length files"
    and items: "\<forall>i<length files. describe_item rt remote i (files ! i) = Inr (rs ! i)"
    by simp_all
  have "\<forall>i<length files. get_prop (rs ! i) ''filename'' = Inr (Str (originalname (files ! i)))"
  proof (intro allI impI)
    fix i assume "i < length files"
    with items have "describe_item rt remote i (files ! i) = Inr (rs ! i)"
      by simp
    then obtain completion where
      "rs ! i = Obj [(''filename'', Str (originalname (files ! i))),
                     (''english_alt'', Str (trim (content_or completion ''Descriptive alt text.'')))]"
      by (auto simp: describe_item_Inr)
    then show "get_prop (rs ! i) ''filename'' = Inr (Str (originalname (files ! i)))"
      by simp
  qed
  with describe_endpoint_ok [OF loop] len show ?thesis
    by blast
qed

theorem describe_one_item_per_file_in_order_witness:
  "\<exists>results.
     fst (describe_endpoint stub_runtime remote_silent (Some [cat_upload, dog_upload]))
       = Response 200 (Json (Obj [(''results'', Arr results)]))
     \<and> length results = 2
     \<and> get_prop (results ! 0) ''filename'' = Inr (Str ''cat.jpg'')
     \<and> get_prop (results ! 1) ''filename'' = Inr (Str ''dog.png'')"
proof -
  have ok: "\<forall>i<length [cat_upload, dog_upload].
      remote_silent i (describe_request stub_runtime ([cat_upload, dog_upload] ! i)) \<noteq> Rejected"
    by (simp add: remote_silent_def)
  from describe_one_item_per_file_in_order
    [where files = "[cat_upload, dog_upload]" and remote = remote_silent and rt = stub_runtime,
      OF ok]
  obtain results where
    r: "describe_endpoint stub_runtime remote_silent (Some [cat_upload, dog_upload])
       = (Response 200 (Json (Obj [(''results'', Arr results)])),
          map (describe_request stub_runtime) [cat_upload, dog_upload])"
    and l: "length results = length [cat_upload, dog_upload]"
    and f: "\<forall>i<length [cat_upload, dog_upload].
           get_prop (results ! i) ''filename'' = Inr (Str (originalname ([cat_upload, dog_upload] ! i)))"
    by blast
  from r have "fst (describe_endpoint stub_runtime remote_silent (Some [cat_upload, dog_upload]))
       = Response 200 (Json (Obj [(''results'', Arr results)]))"
    by simp
  moreover from l have "length results = 2"
    by simp
  moreover from f have "get_prop (results ! 0) ''filename'' = Inr (Str ''cat.jpg'')"
    by (simp add: cat_upload_def)
  moreover from f have "get_prop (results ! 1) ''filename'' = Inr (Str ''dog.png'')"
    by (simp add: dog_upload_def)
  ultimately show ?thesis
    by blast
qed

text \<open>
  C10: in a successful describe batch, the \<^verbatim>\<open>english_alt\<close> of the i-th result is the fixed
  text "Descriptive alt text." when the content of the remote reply for the i-th file is
  absent (no choice, or a \<^verbatim>\<open>null\<close> content) or the empty string, and the trimmed content
  otherwise.
\<close>

theorem describe_english_alt_default_or_trimmed:
  assumes "describe_endpoint rt remote (Some files) = (Response 200 (Json data), calls)"
    and "i < length files"
  shows "\<exists>completion results.
     remote i (describe_request rt (files ! i)) = Resolved completion
     \<and> data = Obj [(''results'', Arr results)]
     \<and> length results = length files
     \<and> get_prop (results ! i) ''english_alt''
         = Inr (Str (case first_content completion of
                       None \<Rightarrow> ''Descriptive alt text.''
                     | Some s \<Rightarrow> if s = [] then ''Descriptive alt text.'' else trim s))"
proof -
  from describe_endpoint_cases [of rt remote files] assms(1) obtain rs where
    loop: "describe_loop rt remote files [] [] = (Inr rs, calls)"
    and data: "data = Obj [(''results'', Arr rs)]"
    by auto
  from describe_loop_Inr [OF loop] assms(2) have
    len: "length rs = length files"
    and item: "describe_item rt remote i (files ! i) = Inr (rs ! i)"
    by simp_all
  from item obtain completion where
    c: "remote i (describe_request rt (files ! i)) = Resolved completion"
    and r: "rs ! i = Obj [(''filename'', Str (originalname (files ! i))),
                     (''english_alt'', Str (trim (content_or completion ''Descriptive alt text.'')))]"
    by (auto simp: describe_item_Inr)
  have "trim (content_or completion ''Descriptive alt text.'')
      = (case first_content completion of
           None \<Rightarrow> ''Descriptive alt text.''
         | Some s \<Rightarrow> if s = [] then ''Descriptive alt text.'' else trim s)"
    by (simp add: content_or_def trim_default split: option.splits)
  with r have "get_prop (rs ! i) ''english_alt''
         = Inr (Str (case first_content completion of
                       None \<Rightarrow> ''Descriptive alt text.''
                     | Some s \<Rightarrow> if s = [] then ''Descriptive alt text.'' else trim s))"
    by simp
  with c data len show ?thesis
    by blast
qed

lemma trim_padded: "trim ''  A cat on a mat. '' = ''A cat on a mat.''"
  by code_simp

lemma show_nat_500: "show_nat 500 = ''500''"
  by code_simp

theorem describe_english_alt_default_or_trimmed_witness:
  "fst (describe_endpoint stub_runtime remote_padded (Some [cat_upload]))
     = Response 200 (Json (Obj [(''results'',
          Arr [Obj [(''filename'', Str ''cat.jpg''), (''english_alt'', Str ''A cat on a mat.'')]])]))
   \<and> (\<exists>completion results.
     remote_padded 0 (describe_request stub_runtime ([cat_upload] ! 0)) = Resolved completion
     \<and> Obj [(''results'',
          Arr [Obj [(''filename'', Str ''cat.jpg''), (''english_alt'', Str ''A cat on a mat.'')]])]
         = Obj [(''results'', Arr results)]
     \<and> length results = length [cat_upload]
     \<and> get_prop (results ! 0) ''english_alt''
         = Inr (Str (case first_content completion of
                       None \<Rightarrow> ''Descriptive alt text.''
                     | Some s \<Rightarrow> if s = [] then ''Descriptive alt text.'' else trim s)))"
proof -
  have response: "fst (describe_endpoint stub_runtime remote_padded (Some [cat_upload]))
     = Response 200 (Json (Obj [(''results'',
          Arr [Obj [(''filename'', Str ''cat.jpg''), (''english_alt'', Str ''A cat on a mat.'')]])]))"
    by (simp add: describe_endpoint_def describe_item_def res_json_def
        remote_padded_def completion_with_def content_or_def first_content_def trim_padded
        cat_upload_def)
  then have run: "describe_endpoint stub_runtime remote_padded (Some [cat_upload])
     = (Response 200 (Json (Obj [(''results'',
          Arr [Obj [(''filename'', Str ''cat.jpg''), (''english_alt'', Str ''A cat on a mat.'')]])])),
        snd (describe_endpoint stub_runtime remote_padded (Some [cat_upload])))"
    by (simp add: prod_eq_iff)
  have i: "0 < length [cat_upload]"
    by simp
  from response describe_english_alt_default_or_trimmed [OF run i] show ?thesis
    by (rule conjI)
qed

text \<open>
  The client on a describe call answered with a status outside 200 to 299: the error thrown by
  \<^verbatim>\<open>batchDescribe\<close> is caught, its message appended, and the rows are not touched.
\<close>

lemma handleFiles_describe_not_ok:
  assumes "validate files [] [] = (newErrors, validFiles)" and "validFiles \<noteq> []"
    and "fetch (PostDescribe validFiles) = Fetched res" and "\<not> ok res"
  shows "handleFiles fetch st files =
     st\<lparr>errors := errors st @ newErrors
           @ [''Describe API failed ('' @ show_nat (status res) @ ''). ''
                @ (case text_body res of None \<Rightarrow> [] | Some t \<Rightarrow> t)],
        isProcessing := False\<rparr>"
  using assms by (simp add: handleFiles_def batchDescribe_def surfaced_def Let_def)

lemma describe_endpoint_rejected:
  assumes "i < length uploads" and "remote i (describe_request rt (uploads ! i)) = Rejected"
  shows "fst (describe_endpoint rt remote (Some uploads)) = Response 500 (Text ''Describe error'')"
proof -
  from assms have "remote (length ([]::request list) + i) (describe_request rt (uploads ! i)) = Rejected"
    by simp
  from describe_loop_rejected
    [where fs = uploads and calls = "[]" and remote = remote and rt = rt and results = "[]",
      OF assms(1) this]
  obtain calls' where
    "describe_loop rt remote uploads [] [] = (Inl Rejection, calls')"
    by auto
  with describe_endpoint_cases [of rt remote uploads] show ?thesis
    by auto
qed

text \<open>
  C4: if the remote call fails for some image of a describe batch, the relay answers with the
  single status 500 and the text "Describe error" (no list of results, so no partial ones);
  a client whose \<^verbatim>\<open>fetch\<close> receives that status and text adds no row to the table and
  appends, after the validation messages of the batch, exactly one message.
\<close>

theorem describe_failure_is_one_batch_error:
  assumes "i < length uploads" and "remote i (describe_request rt (uploads ! i)) = Rejected"
    and "validate files [] [] = (newErrors, validFiles)" and "validFiles \<noteq> []"
    and "fetch (PostDescribe validFiles) = Fetched res"
    and "fst (describe_endpoint rt remote (Some uploads)) = Response (status res) (Text txt)"
    and "text_body res = Some txt"
  shows "fst (describe_endpoint rt remote (Some uploads)) = Response 500 (Text ''Describe error'')
     \<and> rows (handleFiles fetch st files) = rows st
     \<and> errors (handleFiles fetch st files)
         = errors st @ newErrors @ [''Describe API failed (500). Describe error'']"
proof -
  have relay: "fst (describe_endpoint rt remote (Some uploads)) = Response 500 (Text ''Describe error'')"
    using assms(1,2) by (rule describe_endpoint_rejected)
  with assms(6) have code: "status res = 500" and msg: "txt = ''Describe error''"
    by simp_all
  from code have "\<not> ok res"
    by (simp add: ok_def)
  from handleFiles_describe_not_ok [where fetch = fetch and st = st, OF assms(3,4,5) this]
  have "handleFiles fetch st files =
     st\<lparr>errors := errors st @ newErrors @ [''Describe API failed (500). Describe error''],
        isProcessing := False\<rparr>"
    by (simp add: code msg assms(7) show_nat_500)
  with relay show ?thesis
    by simp
qed

theorem describe_failure_is_one_batch_error_witness:
  "fst (describe_endpoint stub_runtime remote_flaky (Some [cat_upload, dog_upload]))
     = Response 500 (Text ''Describe error'')
   \<and> rows (handleFiles relay_fails empty_state [small_jpeg, big_gif]) = rows empty_state
   \<and> errors (handleFiles relay_fails empty_state [small_jpeg, big_gif])
       = errors empty_state @ [unsupported_message big_gif]
           @ [''Describe API failed (500). Describe error'']"
proof -
  have i: "1 < length [cat_upload, dog_upload]"
    by simp
  have rej: "remote_flaky 1 (describe_request stub_runtime ([cat_upload, dog_upload] ! 1)) = Rejected"
    by (simp add: remote_flaky_def)
  have v: "validate [small_jpeg, big_gif] [] [] = ([unsupported_message big_gif], [small_jpeg])"
    by (simp add: big_gif_def small_jpeg_def SUPPORTED_MIME_def MAX_SIZE_BYTES_def)
  have ne: "[small_jpeg] \<noteq> []"
    by simp
  have f: "relay_fails (PostDescribe [small_jpeg]) = Fetched describe_error_response"
    by (simp add: relay_fails_def)
  have r: "fst (describe_endpoint stub_runtime remote_flaky (Some [cat_upload, dog_upload]))
      = Response (status describe_error_response) (Text ''Describe error'')"
    by (simp add: describe_endpoint_def describe_item_def remote_flaky_def
        describe_error_response_def)
  have t: "text_body describe_error_response = Some ''Describe error''"
    by (simp add: describe_error_response_def)
  show ?thesis
    by (rule describe_failure_is_one_batch_error
        [where uploads = "[cat_upload, dog_upload]" and remote = remote_flaky
          and rt = stub_runtime and i = 1 and res = describe_error_response
          and fetch = relay_fails and st = empty_state,
          OF i rej v ne f r t])
qed

section \<open>The translate endpoint\<close>

text \<open>
  Assigning a property: the other properties keep their values, the keys stay distinct.
\<close>

lemma map_of_set_prop:
  "map_of (set_prop row k v) k' = (if k' = k then Some v else map_of row k')"
  by (induction row) auto

lemma map_fst_set_prop:
  "map fst (set_prop row k v) = (if k \<in> fst ` set row then map fst row else map fst row @ [k])"
  by (induction row) (force split: if_splits)+

lemma keys_set_prop:
  "fst ` set (set_prop row k v) = insert k (fst ` set row)"
  using map_fst_set_prop [of row k v, THEN arg_cong, of set] by (auto split: if_splits)

lemma distinct_set_prop:
  "distinct (map fst row) \<Longrightarrow> distinct (map fst (set_prop row k v))"
  by (simp add: map_fst_set_prop)

lemma optional_prop_Inr:
  "get_prop v k = Inr x \<Longrightarrow> optional_prop v k = x"
  by (simp add: optional_prop_def)

lemma get_prop_Inr_iff:
  "(\<exists>x. get_prop v k = Inr x) \<longleftrightarrow> v \<noteq> Null \<and> v \<noteq> Undefined"
  by (cases v) auto

text \<open>
  The inner loop over the requested locales. It fails only when the parsed reply is
  \<^verbatim>\<open>null\<close> (or \<^verbatim>\<open>undefined\<close>) and a locale is requested. Otherwise every requested key holds
  what the reply holds under it, or the empty string when that is falsy, and every other key
  of the row keeps its value.
\<close>

lemma fill_locales_lookup:
  "fill_locales rt parsed ls row = Inr row' \<Longrightarrow>
     map_of row' k =
       (if k \<in> property_key (Number_toString rt) ` set ls
        then Some (or_else (optional_prop parsed k) (Str []))
        else map_of row k)"
proof (induction ls arbitrary: row)
  case Nil
  then show ?case by simp
next
  case (Cons lc lcs)
  let ?k = "property_key (Number_toString rt) lc"
  from Cons.prems obtain v where
    v: "get_prop parsed ?k = Inr v"
    and rest: "fill_locales rt parsed lcs (set_prop row ?k (or_else v (Str []))) = Inr row'"
    by (auto simp: Let_def split: sum.splits)
  from v have "optional_prop parsed ?k = v"
    by (rule optional_prop_Inr)
  with Cons.IH [OF rest] show ?case
    by (auto simp: map_of_set_prop)
qed

lemma fill_locales_keys:
  "fill_locales rt parsed ls row = Inr row' \<Longrightarrow>
     fst ` set row' = fst ` set row \<union> property_key (Number_toString rt) ` set ls
     \<and> (distinct (map fst row) \<longrightarrow> distinct (map fst row'))"
proof (induction ls arbitrary: row)
  case Nil
  then show ?case by simp
next
  case (Cons lc lcs)
  let ?k = "property_key (Number_toString rt) lc"
  from Cons.prems obtain v where
    rest: "fill_locales rt parsed lcs (set_prop row ?k (or_else v (Str []))) = Inr row'"
    by (auto simp: Let_def split: sum.splits)
  from Cons.IH [OF rest] show ?case
    using keys_set_prop [of row ?k "or_else v (Str [])"]
      distinct_set_prop [of row ?k "or_else v (Str [])"]
    by auto
qed

lemma fill_locales_succeeds:
  "parsed \<noteq> Null \<Longrightarrow> parsed \<noteq> Undefined \<Longrightarrow> \<exists>row'. fill_locales rt parsed ls row = Inr row'"
proof (induction ls arbitrary: row)
  case Nil
  show ?case by simp
next
  case (Cons lc lcs)
  from Cons.prems get_prop_Inr_iff [of parsed "property_key (Number_toString rt) lc"]
  obtain v where "get_prop parsed (property_key (Number_toString rt) lc) = Inr v"
    by blast
  with Cons.IH [OF Cons.prems] show ?case
    by (simp add: Let_def)
qed

text \<open>
  What the client reads back from a row: serialisation keeps every property whose value is
  not \<^verbatim>\<open>undefined\<close>.
\<close>

lemma or_else_defined:
  "or_else v (Str []) \<noteq> Undefined"
  by (cases v) (auto simp: or_else_def)

lemma map_of_to_json:
  "distinct (map fst kvs) \<Longrightarrow>
     map_of (map (\<lambda>(k, v). (k, to_json v)) (filter (\<lambda>(k, v). v \<noteq> Undefined) kvs)) k =
       (case map_of kvs k of
          None \<Rightarrow> None
        | Some v \<Rightarrow> if v = Undefined then None else Some (to_json v))"
proof (induction kvs)
  case Nil
  show ?case by simp
next
  case (Cons kv kvs)
  obtain k0 v0 where kv: "kv = (k0, v0)" by (cases kv)
  from Cons.prems kv have "k0 \<notin> fst ` set kvs" and d: "distinct (map fst kvs)"
    by auto
  then have "map_of kvs k0 = None"
    by (simp add: map_of_eq_None_iff)
  with Cons.IH [OF d] kv show ?case
    by (auto split: option.splits)
qed

lemma get_prop_to_json_row:
  assumes "distinct (map fst kvs)" and "map_of kvs k = Some v"
  shows "get_prop (to_json (Obj kvs)) k = Inr (to_json v)"
  using map_of_to_json [OF assms(1), of k] assms(2)
  by (cases "v = Undefined") simp_all

lemma new_row_distinct: "distinct (map fst (new_row fname alt))"
  by (simp add: new_row_def)

lemma new_row_filename: "map_of (new_row fname alt) ''filename'' = Some fname"
  by (simp add: new_row_def)

lemma new_row_english_alt: "map_of (new_row fname alt) ''english_alt'' = Some alt"
  by (simp add: new_row_def)

text \<open>
  The body of the outer loop for one item: when it succeeds, it read the two properties of
  the item, got a reply that parsed, filled the row and issued exactly one request.
\<close>

lemma translate_item_Inr:
  assumes "translate_item rt remote ls n it = (Inr row, sent)"
  shows "\<exists>fname alt completion parsed kvs.
     get_prop it ''filename'' = Inr fname \<and> get_prop it ''english_alt'' = Inr alt
     \<and> remote n (translate_request rt ls alt) = Resolved completion
     \<and> JSON_parse rt (content_or completion ''{}'') = Some parsed
     \<and> fill_locales rt parsed ls (new_row fname alt) = Inr kvs
     \<and> row = Obj kvs \<and> sent = [translate_request rt ls alt]"
  using assms
  by (auto simp: translate_item_def Let_def split: sum.splits reply.splits option.splits)

lemma translate_item_succeeds:
  assumes "it \<noteq> Null" and "it \<noteq> Undefined"
    and "remote n (translate_request rt ls (optional_prop it ''english_alt'')) = Resolved completion"
    and "JSON_parse rt (content_or completion ''{}'') = Some parsed"
    and "parsed \<noteq> Null" and "parsed \<noteq> Undefined"
  shows "\<exists>row. translate_item rt remote ls n it
           = (Inr row, [translate_request rt ls (optional_prop it ''english_alt'')])"
proof -
  from assms(1,2) get_prop_Inr_iff [of it "''filename''"] obtain fname where
    f: "get_prop it ''filename'' = Inr fname" by blast
  from assms(1,2) get_prop_Inr_iff [of it "''english_alt''"] obtain alt where
    a: "get_prop it ''english_alt'' = Inr alt" by blast
  from a have o: "optional_prop it ''english_alt'' = alt"
    by (rule optional_prop_Inr)
  from fill_locales_succeeds [OF assms(5,6), of rt ls "new_row fname alt"] obtain row' where
    "fill_locales rt parsed ls (new_row fname alt) = Inr row'" by blast
  with f a o assms(3,4) show ?thesis
    by (simp add: translate_item_def Let_def)
qed

text \<open>
  The outer loop. Every item that succeeds issues one request, so the i-th item is handled
  by the i-th remote call; the loop returns one row per item, in order, when every item
  succeeds, and fails when some item does.
\<close>

lemma translate_loop_Inr:
  "translate_loop rt remote ls its acc calls = (Inr out', calls') \<Longrightarrow>
     length out' = length acc + length its
     \<and> take (length acc) out' = acc
     \<and> length calls' = length calls + length its
     \<and> (\<forall>i<length its. \<exists>sent. translate_item rt remote ls (length calls + i) (its ! i)
            = (Inr (out' ! (length acc + i)), sent))"
proof (induction its arbitrary: acc calls)
  case Nil
  then show ?case by simp
next
  case (Cons it its)
  from Cons.prems obtain row sent where
    item: "translate_item rt remote ls (length calls) it = (Inr row, sent)"
    and loop: "translate_loop rt remote ls its (acc @ [row]) (calls @ sent) = (Inr out', calls')"
    by (auto split: prod.splits sum.splits)
  from translate_item_Inr [OF item] have sent: "length sent = 1"
    by auto
  from Cons.IH [OF loop] have
    l: "length out' = length (acc @ [row]) + length its"
    and t: "take (length (acc @ [row])) out' = acc @ [row]"
    and c: "length calls' = length (calls @ sent) + length its"
    and r: "\<forall>i<length its. \<exists>s. translate_item rt remote ls (length (calls @ sent) + i) (its ! i)
              = (Inr (out' ! (length (acc @ [row]) + i)), s)"
    by blast+
  have "take (length acc) out' = take (length acc) (take (length (acc @ [row])) out')"
    by (simp add: min_def)
  also have "\<dots> = acc"
    unfolding t by simp
  finally have t0: "take (length acc) out' = acc" .
  have "out' ! length acc = take (length (acc @ [row])) out' ! length acc"
    by simp
  also have "\<dots> = row"
    unfolding t by simp
  finally have hd: "out' ! length acc = row" .
  have "\<forall>i<length (it # its). \<exists>s. translate_item rt remote ls (length calls + i) ((it # its) ! i)
          = (Inr (out' ! (length acc + i)), s)"
  proof (intro allI impI)
    fix i assume i: "i < length (it # its)"
    show "\<exists>s. translate_item rt remote ls (length calls + i) ((it # its) ! i)
          = (Inr (out' ! (length acc + i)), s)"
    proof (cases i)
      case 0
      then show ?thesis using item hd by simp
    next
      case (Suc j)
      with i have "j < length its" by simp
      with r Suc sent show ?thesis by simp
    qed
  qed
  with l t0 c sent show ?case by simp
qed

lemma translate_loop_succeeds:
  "\<forall>i<length its. \<exists>row sent. translate_item rt remote ls (length calls + i) (its ! i)
       = (Inr row, sent) \<Longrightarrow>
   \<exists>out' calls'. translate_loop rt remote ls its acc calls = (Inr out', calls')"
proof (induction its arbitrary: acc calls)
  case Nil
  show ?case by simp
next
  case (Cons it its)
  from Cons.prems have "\<exists>row sent. translate_item rt remote ls (length calls + 0) ((it # its) ! 0)
       = (Inr row, sent)"
    by blast
  then obtain row sent where
    item: "translate_item rt remote ls (length calls) it = (Inr row, sent)"
    by auto
  from translate_item_Inr [OF item] have sent: "length sent = 1"
    by auto
  have "\<forall>i<length its. \<exists>row s. translate_item rt remote ls (length (calls @ sent) + i) (its ! i)
       = (Inr row, s)"
  proof (intro allI impI)
    fix i assume "i < length its"
    with Cons.prems have "\<exists>row s. translate_item rt remote ls (length calls + Suc i) ((it # its) ! Suc i)
       = (Inr row, s)"
      by (metis length_Cons Suc_less_eq)
    with sent show "\<exists>row s. translate_item rt remote ls (length (calls @ sent) + i) (its ! i)
       = (Inr row, s)"
      by simp
  qed
  from Cons.IH [OF this, of "acc @ [row]"] item show ?case
    by simp
qed

lemma translate_loop_failed:
  "i < length its \<Longrightarrow> fst (translate_item rt remote ls (length calls + i) (its ! i)) = Inl err \<Longrightarrow>
     \<exists>err' calls'. translate_loop rt remote ls its acc calls = (Inl err', calls')"
proof (induction its arbitrary: acc calls i)
  case Nil
  then show ?case by simp
next
  case (Cons it its)
  obtain r sent where item: "translate_item rt remote ls (length calls) it = (r, sent)"
    by (cases "translate_item rt remote ls (length calls) it")
  show ?case
  proof (cases r)
    case (Inl e)
    with item show ?thesis by simp
  next
    case (Inr row)
    from translate_item_Inr [OF item [unfolded Inr]] have sent: "length sent = 1"
      by auto
    have "i \<noteq> 0"
    proof
      assume "i = 0"
      with Cons.prems(2) item Inr show False by simp
    qed
    then obtain j where j: "i = Suc j" by (cases i) auto
    with Cons.prems sent have "j < length its"
      and "fst (translate_item rt remote ls (length (calls @ sent) + j) (its ! j)) = Inl err"
      by simp_all
    from Cons.IH [OF this, of "acc @ [row]"] item Inr show ?thesis
      by simp
  qed
qed

text \<open>
  The handler: destructuring \<^verbatim>\<open>req.body || {}\<close> reads the two fields as \<^verbatim>\<open>req.body?.items\<close>
  and \<^verbatim>\<open>req.body?.locales\<close> would, and never throws.
\<close>

lemma destructure_optional:
  "get_prop (if truthy b then b else Obj []) k = Inr (optional_prop b k)"
  by (cases b) (auto simp: optional_prop_def)

lemma translate_endpoint_unfold:
  "translate_endpoint rt remote req_body =
     (if \<not> isArray (optional_prop req_body ''items'') \<or> \<not> isArray (optional_prop req_body ''locales'')
      then (Response 400 (Text ''Bad request''), [])
      else
        (case translate_loop rt remote (elements (optional_prop req_body ''locales''))
                (elements (optional_prop req_body ''items'')) [] [] of
           (Inr rs, calls) \<Rightarrow> (res_json (Obj [(''rows'', Arr rs)]), calls)
         | (Inl err, calls) \<Rightarrow> (Response 500 (Text ''Translate error''), calls)))"
  unfolding translate_endpoint_def Let_def destructure_optional
  by simp

lemma to_json_rows:
  "\<forall>v \<in> set rs. v \<noteq> Undefined \<Longrightarrow>
     to_json (Obj [(''rows'', Arr rs)]) = Obj [(''rows'', Arr (map to_json rs))]"
proof -
  assume a: "\<forall>v \<in> set rs. v \<noteq> Undefined"
  have "map (\<lambda>v. case v of Undefined \<Rightarrow> Null | _ \<Rightarrow> to_json v) rs = map to_json rs"
  proof (rule map_cong [OF refl])
    fix v assume "v \<in> set rs"
    with a have "v \<noteq> Undefined" by blast
    then show "(case v of Undefined \<Rightarrow> Null | _ \<Rightarrow> to_json v) = to_json v"
      by (cases v) simp_all
  qed
  then show ?thesis by simp
qed

lemma translate_loop_rows_defined:
  assumes "translate_loop rt remote ls its [] [] = (Inr rs, calls)"
  shows "\<forall>v \<in> set rs. v \<noteq> Undefined"
proof
  fix v assume "v \<in> set rs"
  then obtain i where i: "i < length rs" and v: "rs ! i = v"
    by (auto simp: in_set_conv_nth)
  from translate_loop_Inr [OF assms] i obtain sent where
    "translate_item rt remote ls i (its ! i) = (Inr (rs ! i), sent)"
    by auto
  from translate_item_Inr [OF this] v show "v \<noteq> Undefined"
    by auto
qed

lemma translate_endpoint_arrays:
  assumes "isArray (optional_prop req_body ''items'')" and "isArray (optional_prop req_body ''locales'')"
  shows "(\<exists>rs calls.
            translate_loop rt remote (elements (optional_prop req_body ''locales''))
              (elements (optional_prop req_body ''items'')) [] [] = (Inr rs, calls)
            \<and> translate_endpoint rt remote req_body
                = (Response 200 (Json (Obj [(''rows'', Arr (map to_json rs))])), calls))
       \<or> (\<exists>err calls.
            translate_loop rt remote (elements (optional_prop req_body ''locales''))
              (elements (optional_prop req_body ''items'')) [] [] = (Inl err, calls)
            \<and> translate_endpoint rt remote req_body = (Response 500 (Text ''Translate error''), calls))"
proof (cases "translate_loop rt remote (elements (optional_prop req_body ''locales''))
              (elements (optional_prop req_body ''items'')) [] []")
  case (Pair r calls)
  show ?thesis
  proof (cases r)
    case (Inl err)
    with Pair assms show ?thesis
      by (simp add: translate_endpoint_unfold)
  next
    case (Inr rs)
    from translate_loop_rows_defined [OF Pair [unfolded Inr]]
    have "to_json (Obj [(''rows'', Arr rs)]) = Obj [(''rows'', Arr (map to_json rs))]"
      by (rule to_json_rows)
    with Pair Inr assms show ?thesis
      by (simp add: translate_endpoint_unfold res_json_def del: to_json.simps)
  qed
qed

lemma optional_prop_field:
  "optional_prop (Obj [(''items'', a), (''locales'', b)]) ''items'' = a"
  "optional_prop (Obj [(''items'', a), (''locales'', b)]) ''locales'' = b"
  by (simp_all add: optional_prop_def)

lemma translate_endpoint_ok:
  assumes "translate_endpoint rt remote (Obj [(''items'', Arr its), (''locales'', Arr ls)])
            = (Response 200 (Json data), calls)"
  shows "\<exists>rs. translate_loop rt remote ls its [] [] = (Inr rs, calls)
           \<and> data = Obj [(''rows'', Arr (map to_json rs))]"
  using translate_endpoint_arrays [of "Obj [(''items'', Arr its), (''locales'', Arr ls)]" rt remote]
    assms
  by (auto simp: optional_prop_field)

lemma translated_row:
  assumes "translate_loop rt remote ls its [] [] = (Inr rs, calls)" and "i < length its"
  shows "\<exists>fname alt completion parsed kvs.
     get_prop (its ! i) ''filename'' = Inr fname \<and> get_prop (its ! i) ''english_alt'' = Inr alt
     \<and> remote i (translate_request rt ls alt) = Resolved completion
     \<and> JSON_parse rt (content_or completion ''{}'') = Some parsed
     \<and> fill_locales rt parsed ls (new_row fname alt) = Inr kvs
     \<and> rs ! i = Obj kvs \<and> distinct (map fst kvs)"
proof -
  from translate_loop_Inr [OF assms(1)] assms(2) obtain sent where
    "translate_item rt remote ls i (its ! i) = (Inr (rs ! i), sent)"
    by auto
  from translate_item_Inr [OF this] obtain fname alt completion parsed kvs where
    f: "get_prop (its ! i) ''filename'' = Inr fname"
    and a: "get_prop (its ! i) ''english_alt'' = Inr alt"
    and c: "remote i (translate_request rt ls alt) = Resolved completion"
    and p: "JSON_parse rt (content_or completion ''{}'') = Some parsed"
    and k: "fill_locales rt parsed ls (new_row fname alt) = Inr kvs"
    and r: "rs ! i = Obj kvs"
    by blast
  from fill_locales_keys [OF k] new_row_distinct have "distinct (map fst kvs)"
    by blast
  with f a c p k r show ?thesis
    by blast
qed

lemma filled_locale:
  assumes "fill_locales rt parsed (map Str LOCALES) (new_row fname alt) = Inr kvs"
    and "lc \<in> set LOCALES"
  shows "map_of kvs lc = Some (or_else (optional_prop parsed lc) (Str []))"
proof -
  from assms(2) have "lc \<in> property_key (Number_toString rt) ` set (map Str LOCALES)"
    by (auto simp: image_iff intro!: bexI [of _ lc])
  with fill_locales_lookup [OF assms(1), of lc] show ?thesis
    by simp
qed

lemma to_json_or_else:
  "to_json (or_else v (Str [])) = (if truthy v then to_json v else Str [])"
  by (simp add: or_else_def)

lemma own_keys_to_json:
  assumes "map_of kvs k = Some v" and "v \<noteq> Undefined"
  shows "k \<in> set (own_keys (to_json (Obj kvs)))"
proof -
  from assms(1) have "(k, v) \<in> set kvs"
    by (rule map_of_SomeD)
  with assms(2) have "(k, v) \<in> set (filter (\<lambda>(k, v). v \<noteq> Undefined) kvs)"
    by simp
  then have "fst (k, to_json v)
      \<in> fst ` set (map (\<lambda>(k, v). (k, to_json v)) (filter (\<lambda>(k, v). v \<noteq> Undefined) kvs))"
    by (intro imageI) force
  then show ?thesis
    by (simp add: image_image case_prod_unfold)
qed

text \<open>
  C1: for a request with an array of items and the seven fixed locales, every response with
  status 200 has one row per item, every row has all seven locale keys, and the value of a
  locale is what the parsed reply of the remote model holds for it when that is truthy and
  the empty string otherwise, in particular when the reply omits the locale. A missing locale
  does not make the batch fail: when no item is \<^verbatim>\<open>null\<close>, every remote call resolves and
  every reply parses to an object, the endpoint answers with status 200 and the rows.
\<close>

theorem translate_rows_carry_all_locales:
  "(translate_endpoint rt remote (Obj [(''items'', Arr its), (''locales'', Arr (map Str LOCALES))])
      = (Response 200 (Json data), calls) \<longrightarrow>
    (\<exists>rs. data = Obj [(''rows'', Arr rs)] \<and> length rs = length its
       \<and> (\<forall>i<length its. set LOCALES \<subseteq> set (own_keys (rs ! i))
            \<and> (\<exists>completion parsed.
                  remote i (translate_request rt (map Str LOCALES)
                              (optional_prop (its ! i) ''english_alt'')) = Resolved completion
                  \<and> JSON_parse rt (content_or completion ''{}'') = Some parsed
                  \<and> (\<forall>lc \<in> set LOCALES.
                        get_prop (rs ! i) lc
                          = Inr (if truthy (optional_prop parsed lc)
                                 then to_json (optional_prop parsed lc) else Str []))))))
   \<and> ((\<forall>i<length its. its ! i \<noteq> Null \<and> its ! i \<noteq> Undefined
          \<and> (\<exists>completion kvs.
                remote i (translate_request rt (map Str LOCALES)
                            (optional_prop (its ! i) ''english_alt'')) = Resolved completion
                \<and> JSON_parse rt (content_or completion ''{}'') = Some (Obj kvs))) \<longrightarrow>
       (\<exists>rs calls.
          translate_endpoint rt remote (Obj [(''items'', Arr its), (''locales'', Arr (map Str LOCALES))])
            = (Response 200 (Json (Obj [(''rows'', Arr rs)])), calls)))"
proof (intro conjI impI)
  assume run: "translate_endpoint rt remote (Obj [(''items'', Arr its), (''locales'', Arr (map Str LOCALES))])
      = (Response 200 (Json data), calls)"
  from translate_endpoint_ok [OF run] obtain rs where
    loop: "translate_loop rt remote (map Str LOCALES) its [] [] = (Inr rs, calls)"
    and data: "data = Obj [(''rows'', Arr (map to_json rs))]"
    by blast
  from translate_loop_Inr [OF loop] have len: "length rs = length its"
    by simp
  have "\<forall>i<length its. set LOCALES \<subseteq> set (own_keys (map to_json rs ! i))
            \<and> (\<exists>completion parsed.
                  remote i (translate_request rt (map Str LOCALES)
                              (optional_prop (its ! i) ''english_alt'')) = Resolved completion
                  \<and> JSON_parse rt (content_or completion ''{}'') = Some parsed
                  \<and> (\<forall>lc \<in> set LOCALES.
                        get_prop (map to_json rs ! i) lc
                          = Inr (if truthy (optional_prop parsed lc)
                                 then to_json (optional_prop parsed lc) else Str [])))"
  proof (intro allI impI)
    fix i assume i: "i < length its"
    from translated_row [OF loop i] obtain fname alt completion parsed kvs where
      a: "get_prop (its ! i) ''english_alt'' = Inr alt"
      and c: "remote i (translate_request rt (map Str LOCALES) alt) = Resolved completion"
      and p: "JSON_parse rt (content_or completion ''{}'') = Some parsed"
      and k: "fill_locales rt parsed (map Str LOCALES) (new_row fname alt) = Inr kvs"
      and r: "rs ! i = Obj kvs" and d: "distinct (map fst kvs)"
      by blast
    from a have o: "optional_prop (its ! i) ''english_alt'' = alt"
      by (rule optional_prop_Inr)
    from r i len have ri: "map to_json rs ! i = to_json (Obj kvs)"
      by simp
    have keys: "set LOCALES \<subseteq> set (own_keys (map to_json rs ! i))"
    proof
      fix lc assume "lc \<in> set LOCALES"
      from filled_locale [OF k this] or_else_defined
      show "lc \<in> set (own_keys (map to_json rs ! i))"
        unfolding ri by (rule own_keys_to_json)
    qed
    have vals: "\<forall>lc \<in> set LOCALES.
        get_prop (map to_json rs ! i) lc
          = Inr (if truthy (optional_prop parsed lc)
                 then to_json (optional_prop parsed lc) else Str [])"
    proof
      fix lc assume "lc \<in> set LOCALES"
      from get_prop_to_json_row [OF d filled_locale [OF k this]]
      show "get_prop (map to_json rs ! i) lc
          = Inr (if truthy (optional_prop parsed lc)
                 then to_json (optional_prop parsed lc) else Str [])"
        unfolding ri by (simp only: to_json_or_else)
    qed
    from keys c p vals o
    show "set LOCALES \<subseteq> set (own_keys (map to_json rs ! i))
            \<and> (\<exists>completion parsed.
                  remote i (translate_request rt (map Str LOCALES)
                              (optional_prop (its ! i) ''english_alt'')) = Resolved completion
                  \<and> JSON_parse rt (content_or completion ''{}'') = Some parsed
                  \<and> (\<forall>lc \<in> set LOCALES.
                        get_prop (map to_json rs ! i) lc
                          = Inr (if truthy (optional_prop parsed lc)
                                 then to_json (optional_prop parsed lc) else Str [])))"
      by blast
  qed
  with data len
  show "\<exists>rs. data = Obj [(''rows'', Arr rs)] \<and> length rs = length its
       \<and> (\<forall>i<length its. set LOCALES \<subseteq> set (own_keys (rs ! i))
            \<and> (\<exists>completion parsed.
                  remote i (translate_request rt (map Str LOCALES)
                              (optional_prop (its ! i) ''english_alt'')) = Resolved completion
                  \<and> JSON_parse rt (content_or completion ''{}'') = Some parsed
                  \<and> (\<forall>lc \<in> set LOCALES.
                        get_prop (rs ! i) lc
                          = Inr (if truthy (optional_prop parsed lc)
                                 then to_json (optional_prop parsed lc) else Str []))))"
    by (intro exI [of _ "map to_json rs"]) simp
next
  assume ok: "\<forall>i<length its. its ! i \<noteq> Null \<and> its ! i \<noteq> Undefined
          \<and> (\<exists>completion kvs.
                remote i (translate_request rt (map Str LOCALES)
                            (optional_prop (its ! i) ''english_alt'')) = Resolved completion
                \<and> JSON_parse rt (content_or completion ''{}'') = Some (Obj kvs))"
  have "\<forall>i<length its. \<exists>row sent.
      translate_item rt remote (map Str LOCALES) (length ([]::request list) + i) (its ! i) = (Inr row, sent)"
  proof (intro allI impI)
    fix i assume "i < length its"
    with ok obtain completion kvs where
      n: "its ! i \<noteq> Null" "its ! i \<noteq> Undefined"
      and c: "remote i (translate_request rt (map Str LOCALES)
                (optional_prop (its ! i) ''english_alt'')) = Resolved completion"
      and p: "JSON_parse rt (content_or completion ''{}'') = Some (Obj kvs)"
      by blast
    from translate_item_succeeds
      [where remote = remote and n = i and rt = rt and ls = "map Str LOCALES", OF n c p]
    show "\<exists>row sent. translate_item rt remote (map Str LOCALES)
        (length ([]::request list) + i) (its ! i) = (Inr row, sent)"
      by auto
  qed
  from translate_loop_succeeds
    [where remote = remote and rt = rt and ls = "map Str LOCALES" and calls = "[]" and acc = "[]",
      OF this]
  obtain rs calls' where
    loop: "translate_loop rt remote (map Str LOCALES) its [] [] = (Inr rs, calls')"
    by blast
  with translate_endpoint_arrays
    [of "Obj [(''items'', Arr its), (''locales'', Arr (map Str LOCALES))]" rt remote]
  show "\<exists>rs calls.
          translate_endpoint rt remote (Obj [(''items'', Arr its), (''locales'', Arr (map Str LOCALES))])
            = (Response 200 (Json (Obj [(''rows'', Arr rs)])), calls)"
    by (auto simp: optional_prop_field)
qed

lemma cat_request_partial_response:
  "fst (translate_endpoint stub_runtime remote_partial
      (Obj [(''items'', Arr [cat_item]), (''locales'', Arr (map Str LOCALES))]))
     = Response 200 (Json (Obj [(''rows'',
          Arr [Obj [(''filename'', Str ''cat.jpg''), (''english_alt'', Str ''A cat.''),
                    (''es-ES'', Str ''Un gato.''), (''it-IT'', Str []), (''nl-NL'', Str []),
                    (''nl-BE'', Str []), (''fr-FR'', Str []), (''de-DE'', Str []),
                    (''de-AT'', Str [])]])]))"
  by (simp add: translate_endpoint_def translate_item_def translate_request_def new_row_def
      res_json_def remote_partial_def completion_with_def content_or_def first_content_def
      stub_runtime_def cat_item_def LOCALES_def or_else_def partial_reply_def)

lemma cat_request_partial:
  "translate_endpoint stub_runtime remote_partial
      (Obj [(''items'', Arr [cat_item]), (''locales'', Arr (map Str LOCALES))])
     = (Response 200 (Json (Obj [(''rows'',
          Arr [Obj [(''filename'', Str ''cat.jpg''), (''english_alt'', Str ''A cat.''),
                    (''es-ES'', Str ''Un gato.''), (''it-IT'', Str []), (''nl-NL'', Str []),
                    (''nl-BE'', Str []), (''fr-FR'', Str []), (''de-DE'', Str []),
                    (''de-AT'', Str [])]])])),
        snd (translate_endpoint stub_runtime remote_partial
          (Obj [(''items'', Arr [cat_item]), (''locales'', Arr (map Str LOCALES))])))"
  using cat_request_partial_response by (simp add: prod_eq_iff)

theorem translate_rows_carry_all_locales_witness:
  "fst (translate_endpoint stub_runtime remote_partial
      (Obj [(''items'', Arr [cat_item]), (''locales'', Arr (map Str LOCALES))]))
     = Response 200 (Json (Obj [(''rows'',
          Arr [Obj [(''filename'', Str ''cat.jpg''), (''english_alt'', Str ''A cat.''),
                    (''es-ES'', Str ''Un gato.''), (''it-IT'', Str []), (''nl-NL'', Str []),
                    (''nl-BE'', Str []), (''fr-FR'', Str []), (''de-DE'', Str []),
                    (''de-AT'', Str [])]])]))
   \<and> (\<exists>rs. length rs = length [cat_item]
         \<and> set LOCALES \<subseteq> set (own_keys (rs ! 0))
         \<and> get_prop (rs ! 0) ''es-ES'' = Inr (Str ''Un gato.'')
         \<and> get_prop (rs ! 0) ''fr-FR'' = Inr (Str []))
   \<and> (\<exists>rs calls. translate_endpoint stub_runtime remote_partial
          (Obj [(''items'', Arr [cat_item]), (''locales'', Arr (map Str LOCALES))])
            = (Response 200 (Json (Obj [(''rows'', Arr rs)])), calls))"
proof -
  note inst = translate_rows_carry_all_locales
    [where rt = stub_runtime and remote = remote_partial and its = "[cat_item]"]
  from inst [THEN conjunct1, rule_format, OF cat_request_partial] obtain rs where
    l: "length rs = length [cat_item]"
    and a: "\<forall>i<length [cat_item]. set LOCALES \<subseteq> set (own_keys (rs ! i))
            \<and> (\<exists>completion parsed.
                  remote_partial i (translate_request stub_runtime (map Str LOCALES)
                              (optional_prop ([cat_item] ! i) ''english_alt'')) = Resolved completion
                  \<and> JSON_parse stub_runtime (content_or completion ''{}'') = Some parsed
                  \<and> (\<forall>lc \<in> set LOCALES.
                        get_prop (rs ! i) lc
                          = Inr (if truthy (optional_prop parsed lc)
                                 then to_json (optional_prop parsed lc) else Str [])))"
    by blast
  from a have k: "set LOCALES \<subseteq> set (own_keys (rs ! 0))"
    by simp
  from a obtain completion parsed where
    c: "remote_partial 0 (translate_request stub_runtime (map Str LOCALES)
          (optional_prop ([cat_item] ! 0) ''english_alt'')) = Resolved completion"
    and p: "JSON_parse stub_runtime (content_or completion ''{}'') = Some parsed"
    and v: "\<forall>lc \<in> set LOCALES.
              get_prop (rs ! 0) lc
                = Inr (if truthy (optional_prop parsed lc)
                       then to_json (optional_prop parsed lc) else Str [])"
    by auto
  from c have "completion = completion_with (Some partial_reply)"
    by (simp add: remote_partial_def)
  with p have parsed: "parsed = Obj [(''es-ES'', Str ''Un gato.'')]"
    by (simp add: stub_runtime_def completion_with_def content_or_def first_content_def
        partial_reply_def)
  have "''es-ES'' \<in> set LOCALES" and "''fr-FR'' \<in> set LOCALES"
    by (simp_all add: LOCALES_def)
  with v have "get_prop (rs ! 0) ''es-ES''
      = Inr (if truthy (optional_prop parsed ''es-ES'')
             then to_json (optional_prop parsed ''es-ES'') else Str [])"
    and "get_prop (rs ! 0) ''fr-FR''
      = Inr (if truthy (optional_prop parsed ''fr-FR'')
             then to_json (optional_prop parsed ''fr-FR'') else Str [])"
    by blast+
  then have es: "get_prop (rs ! 0) ''es-ES'' = Inr (Str ''Un gato.'')"
    and fr: "get_prop (rs ! 0) ''fr-FR'' = Inr (Str [])"
    by (simp_all add: parsed optional_prop_def)
  have ok: "\<forall>i<length [cat_item]. [cat_item] ! i \<noteq> Null \<and> [cat_item] ! i \<noteq> Undefined
          \<and> (\<exists>completion kvs.
                remote_partial i (translate_request stub_runtime (map Str LOCALES)
                            (optional_prop ([cat_item] ! i) ''english_alt'')) = Resolved completion
                \<and> JSON_parse stub_runtime (content_or completion ''{}'') = Some (Obj kvs))"
    by (simp add: cat_item_def remote_partial_def stub_runtime_def completion_with_def
        content_or_def first_content_def partial_reply_def)
  from inst [THEN conjunct2, THEN mp, OF ok]
  have b: "\<exists>rs calls. translate_endpoint stub_runtime remote_partial
          (Obj [(''items'', Arr [cat_item]), (''locales'', Arr (map Str LOCALES))])
            = (Response 200 (Json (Obj [(''rows'', Arr rs)])), calls)" .
  from l k es fr have "\<exists>rs. length rs = length [cat_item]
         \<and> set LOCALES \<subseteq> set (own_keys (rs ! 0))
         \<and> get_prop (rs ! 0) ''es-ES'' = Inr (Str ''Un gato.'')
         \<and> get_prop (rs ! 0) ''fr-FR'' = Inr (Str [])"
    by blast
  with cat_request_partial_response b show ?thesis
    by (intro conjI)
qed

text \<open>
  C5 as stated fails in its second half: both fields are arrays, the remote call is rejected,
  and the endpoint answers with status 500 instead of an object with rows.
\<close>

theorem translate_arrays_can_fail:
  "isArray (optional_prop (Obj [(''items'', Arr [cat_item]), (''locales'', Arr (map Str LOCALES))]) ''items'')
   \<and> isArray (optional_prop (Obj [(''items'', Arr [cat_item]), (''locales'', Arr (map Str LOCALES))]) ''locales'')
   \<and> fst (translate_endpoint stub_runtime remote_down
          (Obj [(''items'', Arr [cat_item]), (''locales'', Arr (map Str LOCALES))]))
       = Response 500 (Text ''Translate error'')"
  by (simp add: translate_endpoint_def translate_item_def remote_down_def cat_item_def
      optional_prop_def)

text \<open>
  C5, amended: a request whose body has no array \<^verbatim>\<open>items\<close> or no array \<^verbatim>\<open>locales\<close> (a missing
  body and a body that is no object included) is answered with status 400 and no remote call.
  When both fields are arrays, the endpoint answers with status 200 and one row per item if
  the body of the loop succeeds for every item, and with status 500 and the text
  "Translate error" if it throws for some item (a \<^verbatim>\<open>null\<close> item, a rejected remote call, a
  reply that does not parse, or one that parses to \<^verbatim>\<open>null\<close> while a locale is requested).
\<close>

theorem translate_request_shape:
  "(\<not> isArray (optional_prop req_body ''items'') \<or> \<not> isArray (optional_prop req_body ''locales'')
      \<longrightarrow> translate_endpoint rt remote req_body = (Response 400 (Text ''Bad request''), []))
   \<and> (isArray (optional_prop req_body ''items'') \<and> isArray (optional_prop req_body ''locales'')
      \<longrightarrow> (if \<forall>i<length (elements (optional_prop req_body ''items'')). \<exists>row sent.
                 translate_item rt remote (elements (optional_prop req_body ''locales'')) i
                   (elements (optional_prop req_body ''items'') ! i) = (Inr row, sent)
           then \<exists>rs calls.
                  translate_endpoint rt remote req_body
                    = (Response 200 (Json (Obj [(''rows'', Arr rs)])), calls)
                  \<and> length rs = length (elements (optional_prop req_body ''items''))
           else \<exists>calls.
                  translate_endpoint rt remote req_body
                    = (Response 500 (Text ''Translate error''), calls)))"
proof (intro conjI impI)
  assume "\<not> isArray (optional_prop req_body ''items'') \<or> \<not> isArray (optional_prop req_body ''locales'')"
  then show "translate_endpoint rt remote req_body = (Response 400 (Text ''Bad request''), [])"
    by (simp add: translate_endpoint_unfold)
next
  let ?its = "elements (optional_prop req_body ''items'')"
  let ?ls = "elements (optional_prop req_body ''locales'')"
  assume arr: "isArray (optional_prop req_body ''items'') \<and> isArray (optional_prop req_body ''locales'')"
  note shape = translate_endpoint_arrays [OF arr [THEN conjunct1] arr [THEN conjunct2], of rt remote]
  show "if \<forall>i<length ?its. \<exists>row sent. translate_item rt remote ?ls i (?its ! i) = (Inr row, sent)
        then \<exists>rs calls.
               translate_endpoint rt remote req_body
                 = (Response 200 (Json (Obj [(''rows'', Arr rs)])), calls)
               \<and> length rs = length ?its
        else \<exists>calls.
               translate_endpoint rt remote req_body
                 = (Response 500 (Text ''Translate error''), calls)"
  proof (cases "\<forall>i<length ?its. \<exists>row sent. translate_item rt remote ?ls i (?its ! i) = (Inr row, sent)")
    case True
    then have "\<forall>i<length ?its. \<exists>row sent.
        translate_item rt remote ?ls (length ([]::request list) + i) (?its ! i) = (Inr row, sent)"
      by simp
    from translate_loop_succeeds
      [where remote = remote and rt = rt and ls = ?ls and calls = "[]" and acc = "[]", OF this]
    obtain rs calls where loop: "translate_loop rt remote ?ls ?its [] [] = (Inr rs, calls)"
      by blast
    from translate_loop_Inr [OF loop] have "length rs = length ?its"
      by simp
    with shape loop have "\<exists>rs calls.
               translate_endpoint rt remote req_body
                 = (Response 200 (Json (Obj [(''rows'', Arr rs)])), calls)
               \<and> length rs = length ?its"
      by (intro exI [of _ "map to_json rs"] exI [of _ calls]) auto
    then show ?thesis
      unfolding if_P [OF True] .
  next
    case False
    then obtain i where i: "i < length ?its"
      and no: "\<forall>row sent. translate_item rt remote ?ls i (?its ! i) \<noteq> (Inr row, sent)"
      by blast
    obtain r sent where item: "translate_item rt remote ?ls i (?its ! i) = (r, sent)"
      by (cases "translate_item rt remote ?ls i (?its ! i)")
    with no obtain err where "r = Inl err"
      by (cases r) auto
    with item have "fst (translate_item rt remote ?ls (length ([]::request list) + i) (?its ! i)) = Inl err"
      by simp
    from translate_loop_failed
      [where remote = remote and rt = rt and ls = ?ls and calls = "[]" and acc = "[]", OF i this]
    obtain err' calls' where "translate_loop rt remote ?ls ?its [] [] = (Inl err', calls')"
      by blast
    with shape have "\<exists>calls. translate_endpoint rt remote req_body
                 = (Response 500 (Text ''Translate error''), calls)"
      by auto
    then show ?thesis
      unfolding if_not_P [OF False] .
  qed
qed

theorem translate_request_shape_witness:
  "translate_endpoint stub_runtime remote_empty_object (Obj [(''items'', Str ''cat.jpg'')])
     = (Response 400 (Text ''Bad request''), [])
   \<and> (\<exists>rs calls.
         translate_endpoint stub_runtime remote_empty_object
           (Obj [(''items'', Arr [cat_item]), (''locales'', Arr (map Str LOCALES))])
           = (Response 200 (Json (Obj [(''rows'', Arr rs)])), calls)
         \<and> length rs = 1)
   \<and> (\<exists>calls.
         translate_endpoint stub_runtime remote_down
           (Obj [(''items'', Arr [cat_item]), (''locales'', Arr (map Str LOCALES))])
           = (Response 500 (Text ''Translate error''), calls))"
proof -
  let ?good = "Obj [(''items'', Arr [cat_item]), (''locales'', Arr (map Str LOCALES))]"
  have bad: "\<not> isArray (optional_prop (Obj [(''items'', Str ''cat.jpg'')]) ''items'')
      \<or> \<not> isArray (optional_prop (Obj [(''items'', Str ''cat.jpg'')]) ''locales'')"
    by (simp add: optional_prop_def)
  from translate_request_shape
    [where rt = stub_runtime and remote = remote_empty_object
      and req_body = "Obj [(''items'', Str ''cat.jpg'')]", THEN conjunct1, THEN mp, OF bad]
  have a: "translate_endpoint stub_runtime remote_empty_object (Obj [(''items'', Str ''cat.jpg'')])
     = (Response 400 (Text ''Bad request''), [])" .
  have arr: "isArray (optional_prop ?good ''items'') \<and> isArray (optional_prop ?good ''locales'')"
    by (simp add: optional_prop_def)
  have all_ok: "\<forall>i<length (elements (optional_prop ?good ''items'')). \<exists>row sent.
      translate_item stub_runtime remote_empty_object (elements (optional_prop ?good ''locales'')) i
        (elements (optional_prop ?good ''items'') ! i) = (Inr row, sent)"
    by (simp add: optional_prop_def translate_item_def cat_item_def remote_empty_object_def
        completion_with_def content_or_def first_content_def stub_runtime_def LOCALES_def)
  from translate_request_shape
    [where rt = stub_runtime and remote = remote_empty_object and req_body = ?good,
      THEN conjunct2, THEN mp, OF arr]
  have "\<exists>rs calls.
         translate_endpoint stub_runtime remote_empty_object ?good
           = (Response 200 (Json (Obj [(''rows'', Arr rs)])), calls)
         \<and> length rs = length (elements (optional_prop ?good ''items''))"
    unfolding if_P [OF all_ok] .
  then have b: "\<exists>rs calls.
         translate_endpoint stub_runtime remote_empty_object ?good
           = (Response 200 (Json (Obj [(''rows'', Arr rs)])), calls)
         \<and> length rs = 1"
    by (simp add: optional_prop_def)
  have not_ok: "\<not> (\<forall>i<length (elements (optional_prop ?good ''items'')). \<exists>row sent.
      translate_item stub_runtime remote_down (elements (optional_prop ?good ''locales'')) i
        (elements (optional_prop ?good ''items'') ! i) = (Inr row, sent))"
    by (simp add: optional_prop_def translate_item_def cat_item_def remote_down_def)
  from translate_request_shape
    [where rt = stub_runtime and remote = remote_down and req_body = ?good,
      THEN conjunct2, THEN mp, OF arr]
  have c: "\<exists>calls.
         translate_endpoint stub_runtime remote_down ?good
           = (Response 500 (Text ''Translate error''), calls)"
    unfolding if_not_P [OF not_ok] .
  from a b c show ?thesis
    by (intro conjI)
qed

text \<open>
  C9 as stated fails: the endpoint assigns \<^verbatim>\<open>row[lc]\<close> for every requested locale without
  looking at its name, so a request whose locales contain "filename" gets rows whose filename
  is what the reply holds under that key, here the empty string instead of "cat.jpg".
\<close>

theorem translate_overwrites_filename_when_requested_as_locale:
  "fst (translate_endpoint stub_runtime remote_empty_object
      (Obj [(''items'', Arr [cat_item]), (''locales'', Arr [Str ''filename''])]))
     = Response 200 (Json (Obj [(''rows'',
          Arr [Obj [(''filename'', Str []), (''english_alt'', Str ''A cat.''),
                    (''es-ES'', Str []), (''it-IT'', Str []), (''nl-NL'', Str []),
                    (''nl-BE'', Str []), (''fr-FR'', Str []), (''de-DE'', Str []),
                    (''de-AT'', Str [])]])]))
   \<and> get_prop cat_item ''filename'' = Inr (Str ''cat.jpg'')"
  by (simp add: translate_endpoint_def translate_item_def translate_request_def new_row_def
      res_json_def remote_empty_object_def completion_with_def content_or_def first_content_def
      stub_runtime_def cat_item_def or_else_def)

text \<open>
  C9, amended: for a request whose items are an array and whose locales are an array that
  names neither "filename" nor "english_alt" (the seven fixed locales are such), every
  response with status 200 has one row per item, and the row of an item with a string
  filename and a string english_alt carries both unchanged.
\<close>

theorem translate_keeps_filename_and_english_alt:
  assumes "translate_endpoint rt remote (Obj [(''items'', Arr its), (''locales'', Arr ls)])
            = (Response 200 (Json data), calls)"
    and "''filename'' \<notin> property_key (Number_toString rt) ` set ls"
    and "''english_alt'' \<notin> property_key (Number_toString rt) ` set ls"
    and "i < length its"
    and "get_prop (its ! i) ''filename'' = Inr (Str fname)"
    and "get_prop (its ! i) ''english_alt'' = Inr (Str alt)"
  shows "\<exists>rs. data = Obj [(''rows'', Arr rs)] \<and> length rs = length its
     \<and> get_prop (rs ! i) ''filename'' = Inr (Str fname)
     \<and> get_prop (rs ! i) ''english_alt'' = Inr (Str alt)"
proof -
  from translate_endpoint_ok [OF assms(1)] obtain rs where
    loop: "translate_loop rt remote ls its [] [] = (Inr rs, calls)"
    and data: "data = Obj [(''rows'', Arr (map to_json rs))]"
    by blast
  from translate_loop_Inr [OF loop] have len: "length rs = length its"
    by simp
  from translated_row [OF loop assms(4)] assms(5,6) obtain parsed kvs where
    k: "fill_locales rt parsed ls (new_row (Str fname) (Str alt)) = Inr kvs"
    and r: "rs ! i = Obj kvs" and d: "distinct (map fst kvs)"
    by auto
  from fill_locales_lookup [OF k, of "''filename''"] assms(2)
  have f: "map_of kvs ''filename'' = Some (Str fname)"
    by (simp add: new_row_filename)
  from fill_locales_lookup [OF k, of "''english_alt''"] assms(3)
  have a: "map_of kvs ''english_alt'' = Some (Str alt)"
    by (simp add: new_row_english_alt)
  from r assms(4) len have ri: "map to_json rs ! i = to_json (Obj kvs)"
    by simp
  from get_prop_to_json_row [OF d f] get_prop_to_json_row [OF d a]
  have "get_prop (map to_json rs ! i) ''filename'' = Inr (Str fname)"
    and "get_prop (map to_json rs ! i) ''english_alt'' = Inr (Str alt)"
    unfolding ri by simp_all
  with data len show ?thesis
    by (intro exI [of _ "map to_json rs"]) simp
qed

theorem translate_keeps_filename_and_english_alt_witness:
  "\<exists>rs. Obj [(''rows'',
          Arr [Obj [(''filename'', Str ''cat.jpg''), (''english_alt'', Str ''A cat.''),
                    (''es-ES'', Str ''Un gato.''), (''it-IT'', Str []), (''nl-NL'', Str []),
                    (''nl-BE'', Str []), (''fr-FR'', Str []), (''de-DE'', Str []),
                    (''de-AT'', Str [])]])] = Obj [(''rows'', Arr rs)]
     \<and> length rs = length [cat_item]
     \<and> get_prop (rs ! 0) ''filename'' = Inr (Str ''cat.jpg'')
     \<and> get_prop (rs ! 0) ''english_alt'' = Inr (Str ''A cat.'')"
proof -
  have f: "''filename'' \<notin> property_key (Number_toString stub_runtime) ` set (map Str LOCALES)"
    by (simp add: LOCALES_def)
  have a: "''english_alt'' \<notin> property_key (Number_toString stub_runtime) ` set (map Str LOCALES)"
    by (simp add: LOCALES_def)
  have i: "0 < length [cat_item]"
    by simp
  have gf: "get_prop ([cat_item] ! 0) ''filename'' = Inr (Str ''cat.jpg'')"
    by (simp add: cat_item_def)
  have ga: "get_prop ([cat_item] ! 0) ''english_alt'' = Inr (Str ''A cat.'')"
    by (simp add: cat_item_def)
  show ?thesis
    by (rule translate_keeps_filename_and_english_alt
        [where rt = stub_runtime and remote = remote_partial,
          OF cat_request_partial f a i gf ga])
qed

section \<open>The CSV export\<close>

text \<open>
  The reader on an exported document, field by field: the body of a quoted field, a plain
  field, a field followed by a comma, a line feed or the end of the document, then a record
  and the whole document. A field is read back when it is exported in quotes or holds no
  carriage return.
\<close>

lemma scan_quoted_body:
  "csv_scan Quoted fld rcd out
     (concat (map (\<lambda>c. if c = DQUOTE then [DQUOTE, DQUOTE] else [c]) v) @ DQUOTE # rest)
     = csv_scan QuoteSeen (fld @ v) rcd out rest"
  by (induction v arbitrary: fld) simp_all

lemma scan_plain:
  assumes "\<not> needs_quotes v" and "CR \<notin> set v" and "st = FieldStart \<or> st = Unquoted"
  shows "csv_scan st fld rcd out (v @ rest)
     = csv_scan (if v = [] then st else Unquoted) (fld @ v) rcd out rest"
  using assms
proof (induction v arbitrary: st fld)
  case Nil
  show ?case by simp
next
  case (Cons c v)
  from Cons.prems have c: "c \<noteq> DQUOTE" "c \<noteq> COMMA" "c \<noteq> LF" "c \<noteq> CR"
    and v: "\<not> needs_quotes v" "CR \<notin> set v"
    by (auto simp: needs_quotes_def)
  from Cons.prems(3) c have "csv_scan st fld rcd out ((c # v) @ rest)
      = csv_scan Unquoted (fld @ [c]) rcd out (v @ rest)"
    by auto
  also from Cons.IH [OF v, of Unquoted "fld @ [c]"] have "\<dots> = csv_scan Unquoted (fld @ c # v) rcd out rest"
    by simp
  finally show ?case by simp
qed

lemma scan_field:
  assumes "(needs_quotes v \<or> CR \<notin> set v)"
  shows "\<exists>st. (st = FieldStart \<and> v = [] \<or> st = Unquoted \<or> st = QuoteSeen)
     \<and> (\<forall>rest. csv_scan FieldStart [] rcd out (escape v @ rest) = csv_scan st v rcd out rest)"
proof (cases "needs_quotes v")
  case True
  then have "\<forall>rest. csv_scan FieldStart [] rcd out (escape v @ rest) = csv_scan QuoteSeen v rcd out rest"
    using scan_quoted_body [of "[]" rcd out v] by (simp add: escape_def)
  then show ?thesis by blast
next
  case False
  with assms have cr: "CR \<notin> set v"
    by simp
  from False have "\<forall>rest. csv_scan FieldStart [] rcd out (escape v @ rest)
      = csv_scan (if v = [] then FieldStart else Unquoted) v rcd out rest"
    using scan_plain [OF False cr, of FieldStart "[]" rcd out] by (simp add: escape_def)
  then show ?thesis
    by (cases "v = []") auto
qed

lemma scan_field_comma:
  assumes "(needs_quotes v \<or> CR \<notin> set v)"
  shows "csv_scan FieldStart [] rcd out (escape v @ COMMA # rest)
     = csv_scan FieldStart [] (rcd @ [v]) out rest"
proof -
  from scan_field [OF assms, of rcd out] obtain st where
    "st = FieldStart \<and> v = [] \<or> st = Unquoted \<or> st = QuoteSeen"
    and "csv_scan FieldStart [] rcd out (escape v @ COMMA # rest) = csv_scan st v rcd out (COMMA # rest)"
    by blast
  then show ?thesis by auto
qed

lemma scan_field_newline:
  assumes "(needs_quotes v \<or> CR \<notin> set v)"
  shows "csv_scan FieldStart [] rcd out (escape v @ LF # rest)
     = csv_scan FieldStart [] [] (out @ [rcd @ [v]]) rest"
proof -
  from scan_field [OF assms, of rcd out] obtain st where
    "st = FieldStart \<and> v = [] \<or> st = Unquoted \<or> st = QuoteSeen"
    and "csv_scan FieldStart [] rcd out (escape v @ LF # rest) = csv_scan st v rcd out (LF # rest)"
    by blast
  then show ?thesis by auto
qed

lemma scan_field_end:
  assumes "(needs_quotes v \<or> CR \<notin> set v)" and "rcd \<noteq> []"
  shows "csv_scan FieldStart [] rcd out (escape v) = Some (out @ [rcd @ [v]])"
proof -
  from scan_field [OF assms(1), of rcd out] obtain st where
    "st = FieldStart \<and> v = [] \<or> st = Unquoted \<or> st = QuoteSeen"
    and "csv_scan FieldStart [] rcd out (escape v @ []) = csv_scan st v rcd out []"
    by blast
  with assms(2) show ?thesis by auto
qed

lemma scan_record_newline:
  assumes "\<forall>v \<in> set vs. (needs_quotes v \<or> CR \<notin> set v)" and "vs \<noteq> []"
  shows "csv_scan FieldStart [] rcd out (join [COMMA] (map escape vs) @ LF # rest)
     = csv_scan FieldStart [] [] (out @ [rcd @ vs]) rest"
  using assms
proof (induction vs arbitrary: rcd)
  case Nil
  then show ?case by simp
next
  case (Cons v vs)
  show ?case
  proof (cases vs)
    case Nil
    with Cons.prems show ?thesis
      by (simp add: scan_field_newline)
  next
    case (Cons w ws)
    from Cons.prems have v: "(needs_quotes v \<or> CR \<notin> set v)" and rest: "\<forall>v \<in> set vs. (needs_quotes v \<or> CR \<notin> set v)"
      by simp_all
    from Cons have "join [COMMA] (map escape (v # vs)) @ LF # rest
        = escape v @ COMMA # (join [COMMA] (map escape vs) @ LF # rest)"
      by simp
    then have "csv_scan FieldStart [] rcd out (join [COMMA] (map escape (v # vs)) @ LF # rest)
        = csv_scan FieldStart [] (rcd @ [v]) out (join [COMMA] (map escape vs) @ LF # rest)"
      by (simp only: scan_field_comma [OF v])
    also from Cons.IH [OF rest, of "rcd @ [v]"] Cons
    have "\<dots> = csv_scan FieldStart [] [] (out @ [(rcd @ [v]) @ vs]) rest"
      by simp
    finally show ?thesis by simp
  qed
qed

lemma scan_record_end:
  assumes "\<forall>v \<in> set vs. (needs_quotes v \<or> CR \<notin> set v)" and "vs \<noteq> []" and "rcd \<noteq> [] \<or> 2 \<le> length vs"
  shows "csv_scan FieldStart [] rcd out (join [COMMA] (map escape vs)) = Some (out @ [rcd @ vs])"
  using assms
proof (induction vs arbitrary: rcd)
  case Nil
  then show ?case by simp
next
  case (Cons v vs)
  show ?case
  proof (cases vs)
    case Nil
    with Cons.prems show ?thesis
      by (simp add: scan_field_end)
  next
    case (Cons w ws)
    from Cons.prems have v: "(needs_quotes v \<or> CR \<notin> set v)" and rest: "\<forall>v \<in> set vs. (needs_quotes v \<or> CR \<notin> set v)"
      by simp_all
    from Cons have "join [COMMA] (map escape (v # vs))
        = escape v @ COMMA # join [COMMA] (map escape vs)"
      by simp
    then have "csv_scan FieldStart [] rcd out (join [COMMA] (map escape (v # vs)))
        = csv_scan FieldStart [] (rcd @ [v]) out (join [COMMA] (map escape vs))"
      by (simp only: scan_field_comma [OF v])
    also from Cons.IH [OF rest, of "rcd @ [v]"] Cons
    have "\<dots> = Some (out @ [(rcd @ [v]) @ vs])"
      by simp
    finally show ?thesis by simp
  qed
qed

lemma scan_document:
  assumes "\<forall>vs \<in> set tbl. (\<forall>v \<in> set vs. (needs_quotes v \<or> CR \<notin> set v)) \<and> 2 \<le> length vs" and "tbl \<noteq> []"
  shows "csv_scan FieldStart [] [] out (join [LF] (map (\<lambda>vs. join [COMMA] (map escape vs)) tbl))
     = Some (out @ tbl)"
  using assms
proof (induction tbl arbitrary: out)
  case Nil
  then show ?case by simp
next
  case (Cons vs tbl)
  from Cons.prems have vs: "\<forall>v \<in> set vs. (needs_quotes v \<or> CR \<notin> set v)" "2 \<le> length vs"
    by simp_all
  then have ne: "vs \<noteq> []" by auto
  show ?case
  proof (cases tbl)
    case Nil
    with scan_record_end [OF vs(1) ne, of "[]" out] vs(2) show ?thesis
      by simp
  next
    case (Cons ws tbl')
    from Cons.prems Cons have rest: "\<forall>vs \<in> set tbl. (\<forall>v \<in> set vs. (needs_quotes v \<or> CR \<notin> set v)) \<and> 2 \<le> length vs"
      and "tbl \<noteq> []"
      by simp_all
    from Cons.IH [OF this, of "out @ [vs]"] Cons
      scan_record_newline [OF vs(1) ne, of "[]" out]
    show ?thesis
      by simp
  qed
qed

text \<open>
  The round trip: for rows in which every field is exported in quotes or holds no carriage
  return, the reader returns the header and the values of every row.
\<close>

lemma header_line: "join [COMMA] headers = join [COMMA] (map escape headers)"
  by (simp add: headers_def escape_def needs_quotes_def)

lemma row_line:
  "map (\<lambda>h. escape (case row_prop r h of None \<Rightarrow> [] | Some v \<Rightarrow> v)) headers
     = map escape (row_values r)"
  by (simp add: headers_def row_prop_def row_values_def)

lemma toCSV_table:
  "toCSV rs = join [LF] (map (\<lambda>vs. join [COMMA] (map escape vs)) (headers # map row_values rs))"
  by (simp add: toCSV_def header_line row_line comp_def)

lemma headers_round_trip: "\<forall>v \<in> set headers. (needs_quotes v \<or> CR \<notin> set v)"
  by (simp add: headers_def)

lemma toCSV_round_trip:
  assumes "\<forall>r \<in> set rs. \<forall>v \<in> set (row_values r). needs_quotes v \<or> CR \<notin> set v"
  shows "csv_parse (toCSV rs) = Some (headers # map row_values rs)"
proof -
  have "\<forall>vs \<in> set (headers # map row_values rs). (\<forall>v \<in> set vs. (needs_quotes v \<or> CR \<notin> set v)) \<and> 2 \<le> length vs"
  proof
    fix vs assume "vs \<in> set (headers # map row_values rs)"
    then consider "vs = headers" | r where "r \<in> set rs" "vs = row_values r"
      by auto
    then show "(\<forall>v \<in> set vs. (needs_quotes v \<or> CR \<notin> set v)) \<and> 2 \<le> length vs"
    proof cases
      case 1
      with headers_round_trip show ?thesis
        by (simp add: headers_def)
    next
      case 2
      with assms have "\<forall>v \<in> set vs. (needs_quotes v \<or> CR \<notin> set v)"
        by simp
      moreover from 2 have "2 \<le> length vs"
        by (simp add: row_values_def)
      ultimately show ?thesis by simp
    qed
  qed
  from scan_document [OF this, of "[]"] show ?thesis
    by (simp add: csv_parse_def toCSV_table)
qed

lemma toCSV_example_doc:
  "toCSV [cat_row, dog_row] =
     ''filename,english_alt,es-ES,it-IT,nl-NL,nl-BE,fr-FR,de-DE,de-AT'' @ [LF]
     @ ''cat.jpg,A cat.,Un gato.,Un gatto.,Een kat.,Een kat.,Un chat.,Eine Katze.,Eine Katze.'' @ [CR, LF]
     @ [DQUOTE] @ ''dog, small.png'' @ [DQUOTE] @ '','' @ [DQUOTE] @ ''A dog says '' @ [DQUOTE, DQUOTE] @ ''woof'' @ [DQUOTE, DQUOTE] @ ''.'' @ [CR, LF] @ ''Twice.'' @ [DQUOTE]
     @ '',Un perro.,Un cane.,Een hond.,,Un chien.,Ein Hund.,Ein Hund.''"
  by (simp add: toCSV_def headers_def row_prop_def cat_row_def dog_row_def escape_def needs_quotes_def)

lemma toCSV_round_trip_example:
  "csv_parse (toCSV [dog_row]) = Some [headers, row_values dog_row]"
  using toCSV_round_trip [of "[dog_row]"]
  by (simp add: row_values_def dog_row_def needs_quotes_def)

text \<open>
  C2 fails on the code: \<^verbatim>\<open>escape\<close> quotes a field for a quote, a comma or a line feed, and
  not for a carriage return. The last field of the first row below ends with a carriage
  return; it is exported unquoted, the line feed that joins the lines follows it, and the
  reader takes the two as the line ending CRLF. The document parses, to the header and two
  rows, and the last field of the first row comes back without its last character. (The
  second row, with a comma, quotes and a CRLF inside a quoted field, comes back unchanged.)
\<close>

theorem toCSV_loses_trailing_carriage_return:
  "csv_parse (toCSV [cat_row, dog_row])
     = Some [headers,
             [''cat.jpg'', ''A cat.'', ''Un gato.'', ''Un gatto.'', ''Een kat.'', ''Een kat.'',
              ''Un chat.'', ''Eine Katze.'', ''Eine Katze.''],
             row_values dog_row]
   \<and> row_values cat_row
     = [''cat.jpg'', ''A cat.'', ''Un gato.'', ''Un gatto.'', ''Een kat.'', ''Een kat.'',
        ''Un chat.'', ''Eine Katze.'', ''Eine Katze.'' @ [CR]]
   \<and> csv_parse (toCSV [cat_row, dog_row]) \<noteq> Some (headers # map row_values [cat_row, dog_row])"
proof (intro conjI)
  show "csv_parse (toCSV [cat_row, dog_row])
     = Some [headers,
             [''cat.jpg'', ''A cat.'', ''Un gato.'', ''Un gatto.'', ''Een kat.'', ''Een kat.'',
              ''Un chat.'', ''Eine Katze.'', ''Eine Katze.''],
             row_values dog_row]"
    unfolding toCSV_example_doc csv_parse_def
    by (simp add: headers_def row_values_def dog_row_def)
  show "row_values cat_row
     = [''cat.jpg'', ''A cat.'', ''Un gato.'', ''Un gatto.'', ''Een kat.'', ''Een kat.'',
        ''Un chat.'', ''Eine Katze.'', ''Eine Katze.'' @ [CR]]"
    by (simp add: row_values_def cat_row_def)
  show "csv_parse (toCSV [cat_row, dog_row]) \<noteq> Some (headers # map row_values [cat_row, dog_row])"
    unfolding toCSV_example_doc csv_parse_def
    by (simp add: headers_def row_values_def cat_row_def dog_row_def)
qed

end
